theory Spec2Isabelle
  imports Main
begin

section \<open>Python values shared by the modules\<close>

text \<open>
  Text is modelled as \<^typ>\<open>string\<close>, a list of 8-bit characters, each read as the code
  point of that number (U+0000 to U+00FF); text with other code points is outside the
  development. Every exception the embedded code can raise is a constructor of
  \<open>py_error\<close>; a function that can raise returns \<open>py_error + 'a\<close>, with \<open>Inl\<close> the
  exception.
\<close>

datatype py_error = ValueError | TypeError | AttributeError | AssertionError

text \<open>
  The characters below U+0100 that Python counts as whitespace: \<open>str.isspace\<close>,
  \<open>str.strip\<close> and \<open>\s\<close> of a string pattern agree on them. They are the controls
  U+0009 to U+000D and U+001C to U+001F, the space, U+0085 and the no-break space
  U+00A0.
\<close>

definition whitespace :: "char list" where
  "whitespace = [CHR 0x09, CHR 0x0A, CHR 0x0B, CHR 0x0C, CHR 0x0D,
                 CHR 0x1C, CHR 0x1D, CHR 0x1E, CHR 0x1F, CHR 0x20, CHR 0x85, CHR 0xA0]"

section \<open>scripts/versions.py\<close>

subsection \<open>The fragment of Python's \<open>re\<close> module used by the script\<close>

text \<open>
  The patterns of the script use character classes, \<open>.\<close>, \<open>+\<close> on a class, \<open>?\<close> on
  a group, alternation, capture groups and the anchors \<open>^\<close> and \<open>$\<close>. The engine of
  \<open>re\<close> is a backtracking matcher: \<open>matches\<close> returns every way of matching a pattern at
  the current position, in the order in which that engine tries them (greedy first,
  left alternative first); \<open>re.match\<close> takes the first.

  A state is the text still to be read and the groups captured so far; the first
  argument is the whole subject string, needed by \<open>^\<close>.
\<close>

datatype regex =
    Cls "char list"
  | Dot
  | PlusCls "char list"
  | Seq regex regex
  | Alt regex regex
  | Opt regex
  | Group nat regex
  | Bol
  | Eol

type_synonym captures = "(nat \<times> string) list"

text \<open>\<open>cls+\<close>, greedy: the text left after the longest run first, then each shorter run.\<close>

fun plus_cls :: "char list \<Rightarrow> string \<Rightarrow> string list" where
  "plus_cls cls [] = []"
| "plus_cls cls (c # cs) = (if c \<in> set cls then plus_cls cls cs @ [cs] else [])"

fun matches :: "string \<Rightarrow> regex \<Rightarrow> string \<times> captures \<Rightarrow> (string \<times> captures) list" where
  "matches whole (Cls cls) (s, g) =
     (case s of [] \<Rightarrow> [] | c # cs \<Rightarrow> if c \<in> set cls then [(cs, g)] else [])"
| "matches whole Dot (s, g) =
     (case s of [] \<Rightarrow> [] | c # cs \<Rightarrow> if c \<noteq> CHR 0x0A then [(cs, g)] else [])"
| "matches whole (PlusCls cls) (s, g) = map (\<lambda>s'. (s', g)) (plus_cls cls s)"
| "matches whole (Seq a b) st = concat (map (matches whole b) (matches whole a st))"
| "matches whole (Alt a b) st = matches whole a st @ matches whole b st"
| "matches whole (Opt a) st = matches whole a st @ [st]"
| "matches whole (Group i a) (s, g) =
     map (\<lambda>(s', g'). (s', (i, take (length s - length s') s) # g')) (matches whole a (s, g))"
| "matches whole Bol (s, g) = (if length s = length whole then [(s, g)] else [])"
| "matches whole Eol (s, g) = (if s = [] \<or> s = [CHR 0x0A] then [(s, g)] else [])"

text \<open>\<open>re.match(pattern, string)\<close>: the first match at the start of the string, or \<open>None\<close>.\<close>

definition re_match :: "regex \<Rightarrow> string \<Rightarrow> captures option" where
  "re_match r s = (case matches s r (s, []) of [] \<Rightarrow> None | (s', g) # _ \<Rightarrow> Some g)"

text \<open>\<open>Match.group(i)\<close>: the text of group \<open>i\<close>, \<open>None\<close> when the group took no part.\<close>

definition group :: "captures \<Rightarrow> nat \<Rightarrow> string option" where
  "group g i = map_of g i"

definition digits :: "char list" where
  "digits = ''0123456789''"

definition lowers :: "char list" where
  "lowers = ''abcdefghijklmnopqrstuvwxyz''"

definition uppers :: "char list" where
  "uppers = ''ABCDEFGHIJKLMNOPQRSTUVWXYZ''"

text \<open>A literal string of a pattern.\<close>

fun lit :: "string \<Rightarrow> regex" where
  "lit [] = Opt (Cls [])"
| "lit [c] = Cls [c]"
| "lit (c # cs) = Seq (Cls [c]) (lit cs)"

subsection \<open>\<open>rebuild_version\<close>\<close>

text \<open>\<open>VERSIONS_RE = re.compile("([0-9]+.[0-9]+.[0-9]+)([a-z]+[0-9]+)?")\<close>; the dots are
  not escaped, so each stands for any character but a newline.\<close>

definition VERSIONS_RE :: regex where
  "VERSIONS_RE =
     Seq (Group 1 (Seq (PlusCls digits) (Seq Dot (Seq (PlusCls digits) (Seq Dot (PlusCls digits))))))
         (Opt (Group 2 (Seq (PlusCls lowers) (PlusCls digits))))"

text \<open>
  \<open>version, prelease = version_elems.groups()\<close>; \<open>if prelease:\<close> holds for a group that
  took part and is not empty. Group 1 is not optional in the pattern, so it takes part
  in every match: the last case below never arises (\<open>rebuild_version_no_type_error\<close>).
\<close>

definition rebuild_version :: "string \<Rightarrow> string \<Rightarrow> py_error + string" where
  "rebuild_version version delim =
     (case re_match VERSIONS_RE version of
        None \<Rightarrow> Inl ValueError
      | Some version_elems \<Rightarrow>
          (case (group version_elems 1, group version_elems 2) of
             (Some version', Some prelease) \<Rightarrow>
               if prelease \<noteq> [] then Inr (version' @ delim @ prelease) else Inr version'
           | (Some version', None) \<Rightarrow> Inr version'
           | (None, _) \<Rightarrow> Inl TypeError))"

text \<open>
  The shape of the two groups of \<open>VERSIONS_RE\<close>: group 1 is three runs of digits
  separated by two characters that are not newlines, group 2 a run of lower-case
  letters followed by a run of digits.
\<close>

definition release_shape :: "string \<Rightarrow> bool" where
  "release_shape r \<longleftrightarrow>
     (\<exists>a x b y c. a \<noteq> [] \<and> set a \<subseteq> set digits \<and> x \<noteq> CHR 0x0A \<and>
        b \<noteq> [] \<and> set b \<subseteq> set digits \<and> y \<noteq> CHR 0x0A \<and>
        c \<noteq> [] \<and> set c \<subseteq> set digits \<and> r = a @ x # b @ y # c)"

definition prerelease_shape :: "string \<Rightarrow> bool" where
  "prerelease_shape p \<longleftrightarrow>
     (\<exists>l n. l \<noteq> [] \<and> set l \<subseteq> set lowers \<and> n \<noteq> [] \<and> set n \<subseteq> set digits \<and> p = l @ n)"

text \<open>The first element of a list of results, when there is one.\<close>

definition first :: "'a list \<Rightarrow> 'a option" where
  "first xs = (case xs of [] \<Rightarrow> None | x # _ \<Rightarrow> Some x)"


subsection \<open>\<open>datetime.datetime.strptime\<close> with the format of the script\<close>

text \<open>
  \<open>validate_date_time\<close> calls \<open>strptime(v, '%Y/%m/%d %H:%M')\<close> of the standard library.
  For a string, \<open>strptime\<close> turns the format into the pattern
  \<open>(\d\d\d\d)/(1[0-2]|0[1-9]|[1-9])/(3[0-1]|[1-2]\d|0[1-9]|[1-9]| [1-9])\s+(2[0-3]|[0-1]\d|\d):([0-5]\d|\d)\<close>
  (each blank of a format stands for \<open>\s+\<close>), takes the first match at the start of
  the string, raises \<open>ValueError\<close> when there is none or when text is left behind it,
  converts the groups with \<open>int\<close> and raises \<open>ValueError\<close> when they name no date (the
  year 0, a day the month does not have). Among the characters modelled, \<open>\d\<close> is
  \<open>[0-9]\<close>.
\<close>

definition nonzero_digits :: "char list" where
  "nonzero_digits = ''123456789''"

definition YEAR_RE :: regex where
  "YEAR_RE = Seq (Cls digits) (Seq (Cls digits) (Seq (Cls digits) (Cls digits)))"

definition MONTH_RE :: regex where
  "MONTH_RE =
     Alt (Seq (Cls ''1'') (Cls ''012''))
      (Alt (Seq (Cls ''0'') (Cls nonzero_digits)) (Cls nonzero_digits))"

definition DAY_RE :: regex where
  "DAY_RE =
     Alt (Seq (Cls ''3'') (Cls ''01''))
      (Alt (Seq (Cls ''12'') (Cls digits))
        (Alt (Seq (Cls ''0'') (Cls nonzero_digits))
          (Alt (Cls nonzero_digits) (Seq (Cls '' '') (Cls nonzero_digits)))))"

definition HOUR_RE :: regex where
  "HOUR_RE =
     Alt (Seq (Cls ''2'') (Cls ''0123'')) (Alt (Seq (Cls ''01'') (Cls digits)) (Cls digits))"

definition MINUTE_RE :: regex where
  "MINUTE_RE = Alt (Seq (Cls ''012345'') (Cls digits)) (Cls digits)"

definition STRPTIME_RE :: regex where
  "STRPTIME_RE =
     Seq (Group 1 YEAR_RE)
      (Seq (Cls ''/'')
        (Seq (Group 2 MONTH_RE)
          (Seq (Cls ''/'')
            (Seq (Group 3 DAY_RE)
              (Seq (PlusCls whitespace)
                (Seq (Group 4 HOUR_RE) (Seq (Cls '':'') (Group 5 MINUTE_RE))))))))"

text \<open>\<open>int\<close> of a group: the digits read in base ten; the blank a day may start with is
  skipped, as \<open>int\<close> does.\<close>

fun int_of :: "nat \<Rightarrow> string \<Rightarrow> nat" where
  "int_of acc [] = acc"
| "int_of acc (c # cs) =
     (case map_of (zip digits [0, 1, 2, 3, 4, 5, 6, 7, 8, 9]) c of
        Some d \<Rightarrow> int_of (10 * acc + d) cs
      | None \<Rightarrow> int_of acc cs)"

definition days_in_month :: "nat \<Rightarrow> nat \<Rightarrow> nat" where
  "days_in_month year month =
     (if month = 2 then
        (if year mod 4 = 0 \<and> (year mod 100 \<noteq> 0 \<or> year mod 400 = 0) then 29 else 28)
      else if month = 4 \<or> month = 6 \<or> month = 9 \<or> month = 11 then 30
      else 31)"

text \<open>\<open>strptime s\<close> holds when the call returns and fails when it raises \<open>ValueError\<close>.\<close>

definition strptime :: "string \<Rightarrow> bool" where
  "strptime s =
     (case matches s STRPTIME_RE (s, []) of
        [] \<Rightarrow> False
      | (rest, found) # _ \<Rightarrow>
          rest = [] \<and>
          (case (group found 1, group found 2, group found 3) of
             (Some y, Some m, Some d) \<Rightarrow>
               1 \<le> int_of 0 y \<and> int_of 0 d \<le> days_in_month (int_of 0 y) (int_of 0 m)
           | _ \<Rightarrow> False))"



subsection \<open>\<open>validate_versions\<close>\<close>

text \<open>
  The manifest is loaded from YAML: a value is a string, a list, or something else (a
  number, a date, a mapping, \<open>None\<close>). A release is a dictionary; its items are
  visited in insertion order, so it is an association list.
\<close>

datatype py_value = PyStr string | PyList "py_value list" | PyOther

type_synonym release = "(string \<times> py_value) list"

text \<open>\<open>re.match(pattern, v) is not None\<close>; \<open>re.match\<close> raises \<open>TypeError\<close> when \<open>v\<close> is
  not a string.\<close>

definition re_matches :: "regex \<Rightarrow> py_value \<Rightarrow> py_error + bool" where
  "re_matches r v = (case v of PyStr s \<Rightarrow> Inr (re_match r s \<noteq> None) | _ \<Rightarrow> Inl TypeError)"

text \<open>
  \<open>validate_date_time\<close>: the \<open>ValueError\<close> of \<open>strptime\<close> is caught and gives \<open>False\<close>;
  given anything but a string, \<open>strptime\<close> raises \<open>TypeError\<close>, which is not caught.
\<close>

definition validate_date_time :: "py_value \<Rightarrow> py_error + bool" where
  "validate_date_time v =
     (case v of PyStr s \<Rightarrow> (if strptime s then Inr True else Inr False) | _ \<Rightarrow> Inl TypeError)"

definition is_str :: "py_value \<Rightarrow> bool" where
  "is_str v = (case v of PyStr _ \<Rightarrow> True | _ \<Rightarrow> False)"

definition letters :: "char list" where
  "letters = lowers @ uppers"

definition AUTHOR_RE :: regex where
  "AUTHOR_RE = Seq (PlusCls letters) (Seq (Cls '' '') (PlusCls letters))"

definition URGENCY_RE :: regex where
  "URGENCY_RE = Seq Bol (Seq (Group 1 (Alt (lit ''low'') (Alt (lit ''medium'') (lit ''urgent'')))) Eol)"

definition STABILITY_RE :: regex where
  "STABILITY_RE = Seq Bol (Seq (Group 1 (Alt (lit ''unstable'') (lit ''stable''))) Eol)"

definition EMAIL_RE :: regex where
  "EMAIL_RE =
     Seq (PlusCls (letters @ ''+_-.'' @ digits))
      (Seq (Cls ''@'')
        (Seq (PlusCls (letters @ ''_'' @ digits))
          (Seq (Cls ''.'') (PlusCls (letters @ ''_'' @ digits)))))"

text \<open>\<open>NECESSARY_FIELDS\<close>: the name of each field and the function validating it.\<close>

definition NECESSARY_FIELDS :: "(string \<times> (py_value \<Rightarrow> py_error + bool)) list" where
  "NECESSARY_FIELDS =
     [(''version'', re_matches VERSIONS_RE),
      (''time'', validate_date_time),
      (''author'', re_matches AUTHOR_RE),
      (''urgency'', re_matches URGENCY_RE),
      (''stability'', re_matches STABILITY_RE),
      (''description'', \<lambda>v. Inr (case v of PyList xs \<Rightarrow> list_all is_str xs | _ \<Rightarrow> False)),
      (''email'', re_matches EMAIL_RE)]"

text \<open>The body of \<open>for field, value in release.items()\<close>.\<close>

fun validate_release :: "release \<Rightarrow> py_error + unit" where
  "validate_release [] = Inr ()"
| "validate_release ((field, val) # items) =
     (case map_of NECESSARY_FIELDS field of
        None \<Rightarrow> Inl ValueError
      | Some validator \<Rightarrow>
          (case validator val of
             Inl e \<Rightarrow> Inl e
           | Inr ok \<Rightarrow> if \<not> ok then Inl ValueError else validate_release items))"

fun validate_versions :: "release list \<Rightarrow> py_error + unit" where
  "validate_versions [] = Inr ()"
| "validate_versions (release # versions) =
     (case validate_release release of
        Inl e \<Rightarrow> Inl e
      | Inr _ \<Rightarrow> validate_versions versions)"

text \<open>
  An item of a release passes when its field is a key of \<open>NECESSARY_FIELDS\<close> and the
  validator of that field returns \<open>True\<close>.
\<close>

definition field_passes :: "string \<times> py_value \<Rightarrow> bool" where
  "field_passes item =
     (case map_of NECESSARY_FIELDS (fst item) of
        None \<Rightarrow> False
      | Some validator \<Rightarrow> validator (snd item) = Inr True)"



text \<open>A release with the fields named in \<open>omitted\<close> left out.\<close>

definition omit_fields :: "string set \<Rightarrow> release \<Rightarrow> release" where
  "omit_fields omitted release = filter (\<lambda>item. fst item \<notin> omitted) release"

section \<open>widgets/login.py\<close>

subsection \<open>Toolkit and controller, as the module uses them\<close>

text \<open>
  The widgets are Gtk objects. What the module relies on is modelled directly: an
  entry and a label hold a text; \<open>Gtk.Entry.set_text\<close> does nothing when the text is the
  one already shown and otherwise stores the text and emits \<open>changed\<close>; a button has the
  property \<open>sensitive\<close>; a spinner is spinning or not; a stack has a visible child;
  \<open>emit\<close> runs the connected handlers before it returns. Typing into an entry changes
  its text the way \<open>set_text\<close> does. \<open>grab_focus\<close> is left out.

  The controller runs \<open>login\<close> and \<open>submit_2fa_code\<close> in the background. The state
  records the calls made to it; the future it hands back is an input of the handler
  that receives it: \<open>future.result()\<close> returns a result or raises.
\<close>

record login_result =
  authenticated :: bool
  twofa_required :: bool

type_synonym future = "py_error + login_result"

datatype controller_call = Login string string | Submit_2fa_code string

datatype signal =
    User_authenticated bool
  | Login_error
  | User_logged_in
  | Two_factor_auth_successful
  | Session_expired

datatype form = Login_form | Two_factor_auth_form_2fa

record login_form =
  error_message :: string
  username :: string
  password :: string
  login_button_sensitive :: bool
  login_spinner_spinning :: bool

record two_factor_auth_form =
  two_factor_error_message :: string
  two_factor_auth_code :: string
  two_factor_spinner_spinning :: bool

record login_widget =
  login_form :: login_form
  two_factor_auth_form :: two_factor_auth_form
  active_form :: "form option"
  visible_child :: "form option"
  emitted :: "signal list"
  controller_calls :: "controller_call list"

subsection \<open>\<open>str.strip\<close>\<close>

text \<open>\<open>s.strip()\<close>: the whitespace at both ends removed.\<close>

definition strip :: "string \<Rightarrow> string" where
  "strip s = rev (dropWhile (\<lambda>c. c \<in> set whitespace) (rev (dropWhile (\<lambda>c. c \<in> set whitespace) s)))"

subsection \<open>\<open>LoginForm\<close>\<close>

text \<open>\<open>_on_entry_changed\<close>, connected to \<open>changed\<close> of both entries.\<close>

definition on_entry_changed :: "login_form \<Rightarrow> login_form" where
  "on_entry_changed f =
     (let is_username_provided = length (strip (username f)) > 0;
          is_password_provided = length (strip (password f)) > 0
      in f\<lparr>login_button_sensitive := is_username_provided \<and> is_password_provided\<rparr>)"

text \<open>The setters of the properties \<open>username\<close>, \<open>password\<close> and \<open>error_message\<close>.\<close>

definition set_username :: "string \<Rightarrow> login_form \<Rightarrow> login_form" where
  "set_username text f =
     (if username f = text then f else on_entry_changed (f\<lparr>username := text\<rparr>))"

definition set_password :: "string \<Rightarrow> login_form \<Rightarrow> login_form" where
  "set_password text f =
     (if password f = text then f else on_entry_changed (f\<lparr>password := text\<rparr>))"

definition set_error_message :: "string \<Rightarrow> login_form \<Rightarrow> login_form" where
  "set_error_message message f = f\<lparr>error_message := message\<rparr>"

text \<open>\<open>LoginForm.reset\<close>.\<close>

definition login_form_reset :: "login_form \<Rightarrow> login_form" where
  "login_form_reset f = set_password [] (set_username [] (set_error_message [] f))"

text \<open>
  \<open>LoginForm.__init__\<close>: empty label and entries, the button made insensitive, the
  handlers connected, then \<open>reset\<close>.
\<close>

definition login_form_init :: login_form where
  "login_form_init =
     login_form_reset
       \<lparr>error_message = [], username = [], password = [],
        login_button_sensitive = False, login_spinner_spinning = False\<rparr>"

subsection \<open>\<open>TwoFactorAuthForm\<close>\<close>

definition two_factor_auth_form_reset :: "two_factor_auth_form \<Rightarrow> two_factor_auth_form" where
  "two_factor_auth_form_reset f = f\<lparr>two_factor_error_message := [], two_factor_auth_code := []\<rparr>"

definition two_factor_auth_form_init :: two_factor_auth_form where
  "two_factor_auth_form_init =
     two_factor_auth_form_reset
       \<lparr>two_factor_error_message = [], two_factor_auth_code = [],
        two_factor_spinner_spinning = False\<rparr>"

subsection \<open>\<open>LoginWidget\<close> and the handlers of the three widgets\<close>

definition login_widget_init :: login_widget where
  "login_widget_init =
     \<lparr>login_form = login_form_init, two_factor_auth_form = two_factor_auth_form_init,
      active_form = None, visible_child = None, emitted = [], controller_calls = []\<rparr>"

text \<open>\<open>emit\<close>, as far as the log goes; each use below is followed by the handlers that
  \<open>LoginWidget.__init__\<close> connects to the signal.\<close>

definition emit :: "signal \<Rightarrow> login_widget \<Rightarrow> login_widget" where
  "emit s w = w\<lparr>emitted := emitted w @ [s]\<rparr>"

definition signal_user_logged_in :: "login_widget \<Rightarrow> login_widget" where
  "signal_user_logged_in w = emit User_logged_in w"

text \<open>\<open>display_form\<close>: \<open>active_form\<close>, \<open>set_visible_child\<close>, then \<open>form.reset()\<close>.\<close>

definition display_form :: "form \<Rightarrow> login_widget \<Rightarrow> login_widget" where
  "display_form form w =
     (let w1 = w\<lparr>active_form := Some form\<rparr>;
          w2 = w1\<lparr>visible_child := Some form\<rparr>
      in case form of
           Login_form \<Rightarrow> w2\<lparr>login_form := login_form_reset (login_form w2)\<rparr>
         | Two_factor_auth_form_2fa \<Rightarrow>
             w2\<lparr>two_factor_auth_form := two_factor_auth_form_reset (two_factor_auth_form w2)\<rparr>)"

definition login_widget_reset :: "login_widget \<Rightarrow> login_widget" where
  "login_widget_reset w = display_form Login_form w"

definition on_user_authenticated :: "bool \<Rightarrow> login_widget \<Rightarrow> login_widget" where
  "on_user_authenticated two_factor_auth_required w =
     (if \<not> two_factor_auth_required then signal_user_logged_in w
      else display_form Two_factor_auth_form_2fa w)"

definition on_two_factor_auth_successful :: "login_widget \<Rightarrow> login_widget" where
  "on_two_factor_auth_successful w = signal_user_logged_in w"

definition on_session_expired_during_2fa :: "login_widget \<Rightarrow> login_widget" where
  "on_session_expired_during_2fa w = display_form Login_form w"

text \<open>\<open>LoginForm._signal_user_authenticated\<close>: the signal, its handler in the
  \<open>LoginWidget\<close>, then \<open>self.reset()\<close>.\<close>

definition signal_user_authenticated :: "bool \<Rightarrow> login_widget \<Rightarrow> login_widget" where
  "signal_user_authenticated two_factor_auth_required w =
     (let w1 = on_user_authenticated two_factor_auth_required
                 (emit (User_authenticated two_factor_auth_required) w)
      in w1\<lparr>login_form := login_form_reset (login_form w1)\<rparr>)"

text \<open>\<open>LoginForm._on_login_button_clicked\<close>: the spinner starts and the controller is
  asked to log in with the texts of the two entries.\<close>

definition on_login_button_clicked :: "login_widget \<Rightarrow> login_widget" where
  "on_login_button_clicked w =
     (let f = login_form w
      in w\<lparr>login_form := f\<lparr>login_spinner_spinning := True\<rparr>,
           controller_calls := controller_calls w @ [Login (username f) (password f)]\<rparr>)"

text \<open>
  \<open>LoginForm._on_login_result\<close>, run on the UI thread with the finished future. The
  \<open>finally\<close> clause stops the spinner on every path. The first component of the result
  is the exception that leaves the handler, if any.
\<close>

definition on_login_result :: "future \<Rightarrow> login_widget \<Rightarrow> py_error option \<times> login_widget" where
  "on_login_result future w =
     (let stopped = (\<lambda>w. w\<lparr>login_form := (login_form w)\<lparr>login_spinner_spinning := False\<rparr>\<rparr>)
      in case future of
           Inl e \<Rightarrow>
             if e = ValueError then
               (None,
                stopped (emit Login_error
                  (w\<lparr>login_form := set_error_message ''Invalid username.'' (login_form w)\<rparr>)))
             else (Some e, stopped w)
         | Inr result \<Rightarrow>
             let w1 = stopped w in
             if authenticated result then
               (None, signal_user_authenticated (twofa_required result) w1)
             else
               (None,
                emit Login_error
                  (w1\<lparr>login_form := set_error_message ''Wrong credentials.'' (login_form w1)\<rparr>)))"

text \<open>\<open>LoginForm._on_press_enter\<close>, connected to \<open>activate\<close> of both entries;
  \<open>Gtk.Button.clicked()\<close> emits \<open>clicked\<close>, whose handler is
  \<open>_on_login_button_clicked\<close>.\<close>

definition on_press_enter :: "login_widget \<Rightarrow> login_widget" where
  "on_press_enter w =
     (if \<not> login_button_sensitive (login_form w) then w else on_login_button_clicked w)"

definition submit_login :: "login_widget \<Rightarrow> login_widget" where
  "submit_login w = on_login_button_clicked w"

text \<open>\<open>TwoFactorAuthForm._on_2fa_submission_button_clicked\<close>.\<close>

definition on_2fa_submission_button_clicked :: "login_widget \<Rightarrow> login_widget" where
  "on_2fa_submission_button_clicked w =
     (let f = two_factor_auth_form w
      in w\<lparr>two_factor_auth_form := f\<lparr>two_factor_spinner_spinning := True\<rparr>,
           controller_calls := controller_calls w @ [Submit_2fa_code (two_factor_auth_code f)]\<rparr>)"

definition signal_two_factor_auth_successful :: "login_widget \<Rightarrow> login_widget" where
  "signal_two_factor_auth_successful w =
     (let w1 = on_two_factor_auth_successful (emit Two_factor_auth_successful w)
      in w1\<lparr>two_factor_auth_form := two_factor_auth_form_reset (two_factor_auth_form w1)\<rparr>)"

text \<open>\<open>TwoFactorAuthForm._on_2fa_submission_result\<close>: no exception is caught here.\<close>

definition on_2fa_submission_result ::
  "future \<Rightarrow> login_widget \<Rightarrow> py_error option \<times> login_widget" where
  "on_2fa_submission_result future w =
     (let w1 = w\<lparr>two_factor_auth_form :=
                  (two_factor_auth_form w)\<lparr>two_factor_spinner_spinning := False\<rparr>\<rparr>
      in case future of
           Inl e \<Rightarrow> (Some e, w1)
         | Inr result \<Rightarrow>
             if \<not> authenticated result then
               (None,
                on_session_expired_during_2fa
                  (emit Session_expired
                    (w1\<lparr>two_factor_auth_form :=
                          (two_factor_auth_form w1)
                            \<lparr>two_factor_error_message := ''Session expired. Please login again.''\<rparr>\<rparr>)))
             else if twofa_required result then
               (None,
                w1\<lparr>two_factor_auth_form :=
                      (two_factor_auth_form w1)\<lparr>two_factor_error_message := ''Wrong 2FA code.''\<rparr>\<rparr>)
             else (None, signal_two_factor_auth_successful w1))"

subsection \<open>What can happen to a \<open>LoginWidget\<close>\<close>

text \<open>
  The user types into an entry, presses Enter in an entry of the login form, presses a
  button (or a test calls \<open>submit_login\<close> or \<open>submit_two_factor_auth\<close>), a future
  finishes, or the owner of the widget calls \<open>reset\<close>.
\<close>

datatype event =
    Edit_username string
  | Edit_password string
  | Press_enter
  | Click_login
  | Login_result future
  | Edit_2fa_code string
  | Click_submit_2fa
  | Submission_result_2fa future
  | Reset

fun step :: "event \<Rightarrow> login_widget \<Rightarrow> login_widget" where
  "step (Edit_username text) w = w\<lparr>login_form := set_username text (login_form w)\<rparr>"
| "step (Edit_password text) w = w\<lparr>login_form := set_password text (login_form w)\<rparr>"
| "step Press_enter w = on_press_enter w"
| "step Click_login w = on_login_button_clicked w"
| "step (Login_result future) w = snd (on_login_result future w)"
| "step (Edit_2fa_code text) w =
     w\<lparr>two_factor_auth_form := (two_factor_auth_form w)\<lparr>two_factor_auth_code := text\<rparr>\<rparr>"
| "step Click_submit_2fa w = on_2fa_submission_button_clicked w"
| "step (Submission_result_2fa future) w = snd (on_2fa_submission_result future w)"
| "step Reset w = login_widget_reset w"

definition run :: "event list \<Rightarrow> login_widget" where
  "run events = fold step events login_widget_init"


section \<open>app.py\<close>

subsection \<open>\<open>str.split\<close> with a separator\<close>

text \<open>
  \<open>s.split(sep)\<close> cuts \<open>s\<close> at each occurrence of \<open>sep\<close>, found from the left without
  overlap; the pieces may be empty. The second argument of \<open>split_from\<close> is the piece
  being read, reversed. The modules split at \<open>"::"\<close>, \<open>"."\<close> and \<open>","\<close>; Python raises
  \<open>ValueError\<close> for an empty separator, which no call here uses.
\<close>

function split_from :: "string \<Rightarrow> string \<Rightarrow> string \<Rightarrow> string list" where
  "split_from sep cur [] = [rev cur]"
| "split_from sep cur (c # cs) =
     (if sep \<noteq> [] \<and> take (length sep) (c # cs) = sep
      then rev cur # split_from sep [] (drop (length sep) (c # cs))
      else split_from sep (c # cur) cs)"
  by pat_completeness auto
termination
  by (relation "measure (\<lambda>(sep, cur, s). length s)") auto

definition str_split :: "string \<Rightarrow> string \<Rightarrow> string list" where
  "str_split sep s = split_from sep [] s"

subsection \<open>Objects reachable from the main window\<close>

text \<open>
  \<open>MainWindow\<close> and its widgets are built elsewhere. What the queue needs of an object
  is whether it is an instance of \<open>GObject.Object\<close>, the names of the signals it has
  (\<open>connect\<close> raises \<open>TypeError\<close> for an unknown name) and its attributes.
\<close>

datatype pyobj = PyObj (is_gobject: bool) (signal_names: "string list") (attrs: "(string \<times> pyobj) list")

text \<open>\<open>getattr(obj, name)\<close>.\<close>

definition getattr :: "pyobj \<Rightarrow> string \<Rightarrow> py_error + pyobj" where
  "getattr obj name = (case map_of (attrs obj) name of None \<Rightarrow> Inl AttributeError | Some v \<Rightarrow> Inr v)"

text \<open>The loop \<open>for widget_path_segment in widget_path.split("."): obj = getattr(...)\<close>.\<close>

fun follow_path :: "pyobj \<Rightarrow> string list \<Rightarrow> py_error + pyobj" where
  "follow_path obj [] = Inr obj"
| "follow_path obj (widget_path_segment # segments) =
     (case getattr obj widget_path_segment of
        Inl e \<Rightarrow> Inl e
      | Inr obj' \<Rightarrow> follow_path obj' segments)"

subsection \<open>\<open>App\<close>\<close>

text \<open>
  The state of the application as far as the queue goes: the window, the queue, and
  the calls \<open>obj.connect(signal_name, callback)\<close> made so far, oldest first, each
  written as the widget path of \<open>obj\<close>, the signal name and the callback. Callbacks are
  of any type \<open>'cb\<close>. \<open>app_ready\<close> counts the emissions of \<open>app-ready\<close>.
\<close>

record 'cb app =
  window :: "pyobj option"
  signal_connect_queue :: "(string \<times> 'cb) list"
  connections :: "(string \<times> string \<times> 'cb) list"
  app_ready :: nat

definition app_init :: "'cb app" where
  "app_init = \<lparr>window = None, signal_connect_queue = [], connections = [], app_ready = 0\<rparr>"

text \<open>
  One turn of the loop of \<open>_process_signal_connect_queue\<close> after the request has been
  popped: the two-way unpacking of \<open>signal_spec.split("::")\<close> (a \<open>ValueError\<close> unless
  there are exactly two parts), the walk along the path, the assertion, and \<open>connect\<close>.
\<close>

definition connect_request :: "pyobj \<Rightarrow> string \<times> 'cb \<Rightarrow> py_error + (string \<times> string \<times> 'cb)" where
  "connect_request win request =
     (case request of (signal_spec, callback) \<Rightarrow>
        (case str_split ''::'' signal_spec of
           [widget_path, signal_name] \<Rightarrow>
             (case follow_path win (str_split ''.'' widget_path) of
                Inl e \<Rightarrow> Inl e
              | Inr obj \<Rightarrow>
                  if \<not> is_gobject obj then Inl AssertionError
                  else if signal_name \<notin> set (signal_names obj) then Inl TypeError
                  else Inr (widget_path, signal_name, callback))
         | _ \<Rightarrow> Inl ValueError))"

text \<open>
  The loop itself, over the queue as it stands: each turn pops the first request; an
  exception leaves the loop with the requests behind the failing one still queued.
  The result is the exception, if any, the queue and the connections.
\<close>

fun process_requests ::
  "pyobj \<Rightarrow> (string \<times> 'cb) list \<Rightarrow> (string \<times> string \<times> 'cb) list \<Rightarrow>
   py_error option \<times> (string \<times> 'cb) list \<times> (string \<times> string \<times> 'cb) list" where
  "process_requests win [] conns = (None, [], conns)"
| "process_requests win (request # queue) conns =
     (case connect_request win request of
        Inl e \<Rightarrow> (Some e, queue, conns)
      | Inr c \<Rightarrow> process_requests win queue (conns @ [c]))"

text \<open>
  \<open>_process_signal_connect_queue\<close>. It starts every walk at \<open>self.window\<close>; both
  callers run it with the window set, and \<open>win\<close> is that window.
\<close>

definition process_signal_connect_queue :: "pyobj \<Rightarrow> 'cb app \<Rightarrow> py_error option \<times> 'cb app" where
  "process_signal_connect_queue win a =
     (case process_requests win (signal_connect_queue a) (connections a) of
        (exc, queue, conns) \<Rightarrow> (exc, a\<lparr>signal_connect_queue := queue, connections := conns\<rparr>))"

text \<open>\<open>queue_signal_connect\<close>: the request is appended; \<open>if self.window:\<close> the queue is
  processed at once.\<close>

definition queue_signal_connect :: "string \<times> 'cb \<Rightarrow> 'cb app \<Rightarrow> py_error option \<times> 'cb app" where
  "queue_signal_connect request a =
     (let a1 = a\<lparr>signal_connect_queue := signal_connect_queue a @ [request]\<rparr>
      in case window a1 of
           Some win \<Rightarrow> process_signal_connect_queue win a1
         | None \<Rightarrow> (None, a1))"

text \<open>
  \<open>do_activate\<close>; \<open>main_window\<close> is the window \<open>MainWindow(self, self._controller)\<close>
  builds. Adding the window, the tray indicator and showing the window are left out.
  An exception of the queue leaves \<open>do_activate\<close> before \<open>app-ready\<close> is emitted.
\<close>

definition do_activate :: "pyobj \<Rightarrow> 'cb app \<Rightarrow> py_error option \<times> 'cb app" where
  "do_activate main_window a =
     (case window a of
        None \<Rightarrow>
          (case process_signal_connect_queue main_window (a\<lparr>window := Some main_window\<rparr>) of
             (Some e, a1) \<Rightarrow> (Some e, a1)
           | (None, a1) \<Rightarrow> (None, a1\<lparr>app_ready := app_ready a1 + 1\<rparr>))
      | Some win \<Rightarrow> (None, a\<lparr>app_ready := app_ready a + 1\<rparr>))"

text \<open>Queueing a list of requests one after the other, as a test does before \<open>run\<close>.\<close>

definition queue_all :: "(string \<times> 'cb) list \<Rightarrow> 'cb app \<Rightarrow> 'cb app" where
  "queue_all requests a = fold (\<lambda>request a. snd (queue_signal_connect request a)) requests a"

text \<open>A request resolves in a window when its turn of the loop raises nothing.\<close>

definition resolves :: "pyobj \<Rightarrow> string \<times> 'cb \<Rightarrow> bool" where
  "resolves win request = (case connect_request win request of Inl _ \<Rightarrow> False | Inr _ \<Rightarrow> True)"

text \<open>The exception of the first request of a queue that does not resolve, if there is
  one.\<close>

definition first_failure :: "pyobj \<Rightarrow> (string \<times> 'cb) list \<Rightarrow> py_error option" where
  "first_failure win queue =
     (case dropWhile (resolves win) queue of
        [] \<Rightarrow> None
      | request # _ \<Rightarrow> (case connect_request win request of Inl e \<Rightarrow> Some e | Inr _ \<Rightarrow> None))"

text \<open>The \<open>connect\<close> call a request stands for.\<close>

definition connection_of :: "string \<times> 'cb \<Rightarrow> string \<times> string \<times> 'cb" where
  "connection_of request =
     (case request of (signal_spec, callback) \<Rightarrow>
        (case str_split ''::'' signal_spec of
           [widget_path, signal_name] \<Rightarrow> (widget_path, signal_name, callback)
         | _ \<Rightarrow> (signal_spec, [], callback)))"

text \<open>
  A window for concrete runs: \<open>main_widget\<close> with a \<open>login_widget\<close>, and
  \<open>notifications\<close>, whose \<open>error_dialogs\<close> is a Python list, not a \<open>GObject.Object\<close>.
\<close>

definition example_window :: pyobj where
  "example_window =
     PyObj True [''destroy'']
       [(''main_widget'',
         PyObj True [''main-widget-ready'']
           [(''login_widget'', PyObj True [''user-logged-in''] []),
            (''notifications'', PyObj True [] [(''error_dialogs'', PyObj False [] [])])])]"

section \<open>widgets/headerbar/menu/settings/general_settings.py\<close>

subsection \<open>The configuration and the controller\<close>

text \<open>
  \<open>AppConfiguration\<close> is defined outside this module. The module reads and writes its
  fields \<open>connect_at_app_startup\<close> (a server code or \<open>None\<close>) and \<open>tray_pinned_servers\<close>
  (a list of server codes); whatever other fields it has are the extension of the
  record.
\<close>

record AppConfiguration =
  connect_at_app_startup :: "string option"
  tray_pinned_servers :: "string list"

text \<open>
  Modelled from the spec: the \<open>Controller\<close>, of which the module uses the property
  \<open>app_configuration\<close>, "get/set property for the persisted settings record". Getting
  it returns the record; setting it replaces the record. \<open>writes\<close> lists the records
  assigned to the property, oldest first.
\<close>

record 'm controller =
  app_configuration :: "'m AppConfiguration_scheme"
  writes :: "'m AppConfiguration_scheme list"

definition get_app_configuration :: "'m controller \<Rightarrow> 'm AppConfiguration_scheme" where
  "get_app_configuration c = app_configuration c"

definition set_app_configuration :: "'m AppConfiguration_scheme \<Rightarrow> 'm controller \<Rightarrow> 'm controller" where
  "set_app_configuration app_config c = c\<lparr>app_configuration := app_config, writes := writes c @ [app_config]\<rparr>"

subsection \<open>\<open>str.upper\<close> and \<open>str.join\<close>\<close>

text \<open>
  \<open>str.upper\<close> follows the case mappings of Unicode, which can lengthen a text and
  map a character below U+0100 to one above; it is a parameter \<open>upper\<close> of the
  functions that call it. \<open>ascii_upper\<close> is what it does to a text of ASCII
  characters, for concrete runs.
\<close>

definition ascii_upper :: "string \<Rightarrow> string" where
  "ascii_upper s = map (\<lambda>c. case map_of (zip lowers uppers) c of Some u \<Rightarrow> u | None \<Rightarrow> c) s"

fun join :: "string \<Rightarrow> string list \<Rightarrow> string" where
  "join sep [] = []"
| "join sep [x] = x"
| "join sep (x # xs) = x @ sep @ join sep xs"

subsection \<open>\<open>GeneralSettings\<close>\<close>

text \<open>The property \<open>connect_at_app_startup\<close>: getter and setter.\<close>

definition get_connect_at_app_startup :: "'m controller \<Rightarrow> string" where
  "get_connect_at_app_startup c =
     (case connect_at_app_startup (get_app_configuration c) of
        None \<Rightarrow> ''Off''
      | Some v \<Rightarrow> v)"

definition set_connect_at_app_startup :: "string option \<Rightarrow> 'm controller \<Rightarrow> 'm controller" where
  "set_connect_at_app_startup newvalue c =
     (let app_config = get_app_configuration c;
          app_config = app_config\<lparr>connect_at_app_startup := newvalue\<rparr>
      in set_app_configuration app_config c)"

text \<open>\<open>on_focus_outside_entry\<close> of \<open>build_connect_at_app_startup\<close>.\<close>

definition on_focus_outside_connect_entry ::
  "(string \<Rightarrow> string) \<Rightarrow> string \<Rightarrow> 'm controller \<Rightarrow> 'm controller" where
  "on_focus_outside_connect_entry upper text c =
     (let newvalue = upper (strip text)
      in set_connect_at_app_startup (if newvalue = ''OFF'' then None else Some newvalue) c)"

text \<open>The property \<open>tray_pinned_servers\<close>: getter and setter.\<close>

definition get_tray_pinned_servers :: "'m controller \<Rightarrow> string" where
  "get_tray_pinned_servers c = join '', '' (tray_pinned_servers (get_app_configuration c))"

definition server_list_of :: "(string \<Rightarrow> string) \<Rightarrow> string \<Rightarrow> string list" where
  "server_list_of upper newvalue =
     filter (\<lambda>cleaned_pinned_server. cleaned_pinned_server \<noteq> [])
       (map (\<lambda>pinned_server. upper (strip pinned_server)) (str_split '','' newvalue))"

definition set_tray_pinned_servers ::
  "(string \<Rightarrow> string) \<Rightarrow> string \<Rightarrow> 'm controller \<Rightarrow> 'm controller" where
  "set_tray_pinned_servers upper newvalue c =
     (let server_list = server_list_of upper newvalue;
          app_config = get_app_configuration c;
          app_config = app_config\<lparr>tray_pinned_servers := server_list\<rparr>
      in set_app_configuration app_config c)"

section \<open>Verification of scripts/versions.py\<close>

subsection \<open>What a match of the matcher looks like\<close>

lemma plus_cls_iff:
  "s' \<in> set (plus_cls cls s) \<longleftrightarrow> (\<exists>p. p \<noteq> [] \<and> set p \<subseteq> set cls \<and> s = p @ s')"
proof (induction s)
  case Nil
  then show ?case by simp
next
  case (Cons c cs)
  show ?case
  proof
    assume "s' \<in> set (plus_cls cls (c # cs))"
    then have c: "c \<in> set cls" and d: "s' \<in> set (plus_cls cls cs) \<or> s' = cs"
      by (auto split: if_splits)
    from d show "\<exists>p. p \<noteq> [] \<and> set p \<subseteq> set cls \<and> c # cs = p @ s'"
    proof
      assume "s' \<in> set (plus_cls cls cs)"
      then obtain p where "p \<noteq> []" "set p \<subseteq> set cls" "cs = p @ s'"
        using Cons.IH by blast
      with c have "c # p \<noteq> [] \<and> set (c # p) \<subseteq> set cls \<and> c # cs = (c # p) @ s'" by simp
      then show ?thesis by blast
    next
      assume "s' = cs"
      with c have "[c] \<noteq> [] \<and> set [c] \<subseteq> set cls \<and> c # cs = [c] @ s'" by simp
      then show ?thesis by blast
    qed
  next
    assume "\<exists>p. p \<noteq> [] \<and> set p \<subseteq> set cls \<and> c # cs = p @ s'"
    then obtain p where p: "p \<noteq> []" "set p \<subseteq> set cls" "c # cs = p @ s'" by blast
    then obtain q where q: "p = c # q" by (cases p) auto
    with p have c: "c \<in> set cls" and cs: "cs = q @ s'" and sq: "set q \<subseteq> set cls" by auto
    show "s' \<in> set (plus_cls cls (c # cs))"
    proof (cases "q = []")
      case True
      with c cs show ?thesis by simp
    next
      case False
      with sq cs have "s' \<in> set (plus_cls cls cs)" using Cons.IH by blast
      with c show ?thesis by simp
    qed
  qed
qed

lemma in_matches_SeqD:
  assumes "x \<in> set (matches w (Seq a b) st)"
  obtains s1 g1 where "(s1, g1) \<in> set (matches w a st)" "x \<in> set (matches w b (s1, g1))"
  using assms by auto

lemma in_matches_PlusClsD:
  "(s', g') \<in> set (matches w (PlusCls cls) (s, g)) \<Longrightarrow>
     g' = g \<and> (\<exists>p. p \<noteq> [] \<and> set p \<subseteq> set cls \<and> s = p @ s')"
  by (auto simp: plus_cls_iff)

lemma in_matches_DotD:
  "(s', g') \<in> set (matches w Dot (s, g)) \<Longrightarrow> g' = g \<and> (\<exists>c. c \<noteq> CHR 0x0A \<and> s = c # s')"
  by (auto split: list.splits if_splits)

lemma in_matches_GroupD:
  "(s', g') \<in> set (matches w (Group i a) (s, g)) \<Longrightarrow>
     \<exists>g0. (s', g0) \<in> set (matches w a (s, g)) \<and> g' = (i, take (length s - length s') s) # g0"
  by auto

lemma in_matches_OptD:
  "x \<in> set (matches w (Opt a) st) \<Longrightarrow> x \<in> set (matches w a st) \<or> x = st"
  by auto

lemma release_shapeI:
  "a \<noteq> [] \<Longrightarrow> set a \<subseteq> set digits \<Longrightarrow> x \<noteq> CHR 0x0A \<Longrightarrow>
   b \<noteq> [] \<Longrightarrow> set b \<subseteq> set digits \<Longrightarrow> y \<noteq> CHR 0x0A \<Longrightarrow>
   c \<noteq> [] \<Longrightarrow> set c \<subseteq> set digits \<Longrightarrow> release_shape (a @ x # b @ y # c)"
  unfolding release_shape_def
  apply (rule exI[of _ a], rule exI[of _ x], rule exI[of _ b], rule exI[of _ y], rule exI[of _ c])
  apply simp
  done

lemma prerelease_shapeI:
  "l \<noteq> [] \<Longrightarrow> set l \<subseteq> set lowers \<Longrightarrow> n \<noteq> [] \<Longrightarrow> set n \<subseteq> set digits \<Longrightarrow>
   prerelease_shape (l @ n)"
  unfolding prerelease_shape_def
  apply (rule exI[of _ l], rule exI[of _ n])
  apply simp
  done

lemma in_matches_release:
  assumes "(s', g') \<in> set (matches w (Seq (PlusCls digits) (Seq Dot (Seq (PlusCls digits) (Seq Dot (PlusCls digits))))) (s, g))"
  shows "g' = g \<and> (\<exists>r. release_shape r \<and> s = r @ s')"
proof -
  from assms obtain s1 g1 where m1: "(s1, g1) \<in> set (matches w (PlusCls digits) (s, g))"
    and r1: "(s', g') \<in> set (matches w (Seq Dot (Seq (PlusCls digits) (Seq Dot (PlusCls digits)))) (s1, g1))"
    by (rule in_matches_SeqD)
  from r1 obtain s2 g2 where m2: "(s2, g2) \<in> set (matches w Dot (s1, g1))"
    and r2: "(s', g') \<in> set (matches w (Seq (PlusCls digits) (Seq Dot (PlusCls digits))) (s2, g2))"
    by (rule in_matches_SeqD)
  from r2 obtain s3 g3 where m3: "(s3, g3) \<in> set (matches w (PlusCls digits) (s2, g2))"
    and r3: "(s', g') \<in> set (matches w (Seq Dot (PlusCls digits)) (s3, g3))"
    by (rule in_matches_SeqD)
  from r3 obtain s4 g4 where m4: "(s4, g4) \<in> set (matches w Dot (s3, g3))"
    and r4: "(s', g') \<in> set (matches w (PlusCls digits) (s4, g4))"
    by (rule in_matches_SeqD)
  from in_matches_PlusClsD[OF m1] obtain a where
    a: "a \<noteq> []" "set a \<subseteq> set digits" "s = a @ s1" "g1 = g" by blast
  from in_matches_DotD[OF m2] obtain x where
    x: "x \<noteq> CHR 0x0A" "s1 = x # s2" "g2 = g1" by blast
  from in_matches_PlusClsD[OF m3] obtain b where
    b: "b \<noteq> []" "set b \<subseteq> set digits" "s2 = b @ s3" "g3 = g2" by blast
  from in_matches_DotD[OF m4] obtain y where
    y: "y \<noteq> CHR 0x0A" "s3 = y # s4" "g4 = g3" by blast
  from in_matches_PlusClsD[OF r4] obtain c where
    c: "c \<noteq> []" "set c \<subseteq> set digits" "s4 = c @ s'" "g' = g4" by blast
  from a(1,2) x(1) b(1,2) y(1) c(1,2) have "release_shape (a @ x # b @ y # c)"
    by (rule release_shapeI)
  moreover have "s = (a @ x # b @ y # c) @ s'"
    by (simp add: a(3) x(2) b(3) y(2) c(3))
  moreover have "g' = g"
    by (simp add: a(4) x(3) b(4) y(3) c(4))
  ultimately show ?thesis by blast
qed

lemma in_matches_prerelease:
  assumes "(s', g') \<in> set (matches w (Seq (PlusCls lowers) (PlusCls digits)) (s, g))"
  shows "g' = g \<and> (\<exists>p. prerelease_shape p \<and> s = p @ s')"
proof -
  from assms obtain s1 g1 where m1: "(s1, g1) \<in> set (matches w (PlusCls lowers) (s, g))"
    and r1: "(s', g') \<in> set (matches w (PlusCls digits) (s1, g1))"
    by (rule in_matches_SeqD)
  from in_matches_PlusClsD[OF m1] obtain l where
    l: "l \<noteq> []" "set l \<subseteq> set lowers" "s = l @ s1" "g1 = g" by blast
  from in_matches_PlusClsD[OF r1] obtain n where
    n: "n \<noteq> []" "set n \<subseteq> set digits" "s1 = n @ s'" "g' = g1" by blast
  from l(1,2) n(1,2) have "prerelease_shape (l @ n)"
    by (rule prerelease_shapeI)
  moreover have "s = (l @ n) @ s'" by (simp add: l(3) n(3))
  moreover have "g' = g" by (simp add: l(4) n(4))
  ultimately show ?thesis by blast
qed

lemma in_matches_VERSIONS_RE:
  assumes "(s', m) \<in> set (matches w VERSIONS_RE (v, []))"
  shows "\<exists>r. release_shape r \<and> group m 1 = Some r \<and>
           ((group m 2 = None \<and> v = r @ s') \<or>
            (\<exists>p. prerelease_shape p \<and> group m 2 = Some p \<and> v = r @ p @ s'))"
proof -
  from assms obtain s1 g1 where
    1: "(s1, g1) \<in> set (matches w (Group 1 (Seq (PlusCls digits) (Seq Dot (Seq (PlusCls digits) (Seq Dot (PlusCls digits)))))) (v, []))"
    and 2: "(s', m) \<in> set (matches w (Opt (Group 2 (Seq (PlusCls lowers) (PlusCls digits)))) (s1, g1))"
    unfolding VERSIONS_RE_def by (rule in_matches_SeqD)
  from in_matches_GroupD[OF 1] obtain g0 where
    g0: "(s1, g0) \<in> set (matches w (Seq (PlusCls digits) (Seq Dot (Seq (PlusCls digits) (Seq Dot (PlusCls digits))))) (v, []))"
    and g1: "g1 = (1, take (length v - length s1) v) # g0"
    by blast
  from in_matches_release[OF g0] obtain r where
    r: "release_shape r" "v = r @ s1" and g0': "g0 = []" by blast
  have g1': "g1 = [(1, r)]" by (simp add: g1 g0' r(2))
  from in_matches_OptD[OF 2] show ?thesis
  proof
    assume "(s', m) = (s1, g1)"
    then have "s' = s1" "m = [(1, r)]" using g1' by simp_all
    then have "release_shape r \<and> group m 1 = Some r \<and> group m 2 = None \<and> v = r @ s'"
      using r by (simp add: group_def)
    then show ?thesis by blast
  next
    assume "(s', m) \<in> set (matches w (Group 2 (Seq (PlusCls lowers) (PlusCls digits))) (s1, g1))"
    from in_matches_GroupD[OF this] obtain g2 where
      3: "(s', g2) \<in> set (matches w (Seq (PlusCls lowers) (PlusCls digits)) (s1, g1))"
      and m: "m = (2, take (length s1 - length s') s1) # g2"
      by blast
    from in_matches_prerelease[OF 3] obtain p where
      p: "prerelease_shape p" "s1 = p @ s'" and g2: "g2 = g1" by blast
    have "m = [(2, p), (1, r)]" by (simp add: m p(2) g2 g1')
    then have "release_shape r \<and> group m 1 = Some r \<and> prerelease_shape p \<and> group m 2 = Some p \<and> v = r @ p @ s'"
      using r p by (simp add: group_def)
    then show ?thesis by blast
  qed
qed

lemma re_match_VERSIONS_RE:
  assumes "re_match VERSIONS_RE v = Some m"
  shows "\<exists>r rest. release_shape r \<and> group m 1 = Some r \<and>
           ((group m 2 = None \<and> v = r @ rest) \<or>
            (\<exists>p. prerelease_shape p \<and> group m 2 = Some p \<and> v = r @ p @ rest))"
proof -
  from assms obtain s' where "(s', m) \<in> set (matches v VERSIONS_RE (v, []))"
    by (auto simp: re_match_def split: list.splits)
  from in_matches_VERSIONS_RE[OF this] show ?thesis by blast
qed

lemma prerelease_shape_nonempty: "prerelease_shape p \<Longrightarrow> p \<noteq> []"
  by (auto simp: prerelease_shape_def)

subsection \<open>The match the engine finds first\<close>

lemma re_match_first: "re_match r s = map_option snd (first (matches s r (s, [])))"
  by (simp add: re_match_def first_def split: list.splits)

lemma first_append: "first xs = Some x \<Longrightarrow> first (xs @ ys) = Some x"
  by (cases xs) (simp_all add: first_def)

lemma first_concat_map:
  "first xs = Some x \<Longrightarrow> first (f x) = Some y \<Longrightarrow> first (concat (map f xs)) = Some y"
  by (cases xs) (simp_all add: first_def split: list.splits)

lemma first_Seq:
  "first (matches w a st) = Some mid \<Longrightarrow> first (matches w b mid) = Some x \<Longrightarrow>
   first (matches w (Seq a b) st) = Some x"
  by (simp add: first_concat_map)

lemma plus_cls_stop: "rest = [] \<or> hd rest \<notin> set cls \<Longrightarrow> plus_cls cls rest = []"
  by (cases rest) auto

lemma first_plus_cls:
  "p \<noteq> [] \<Longrightarrow> set p \<subseteq> set cls \<Longrightarrow> rest = [] \<or> hd rest \<notin> set cls \<Longrightarrow>
   first (plus_cls cls (p @ rest)) = Some rest"
proof (induction p)
  case Nil
  then show ?case by simp
next
  case (Cons c q)
  show ?case
  proof (cases "q = []")
    case True
    with Cons.prems show ?thesis by (simp add: plus_cls_stop first_def)
  next
    case False
    with Cons have "first (plus_cls cls (q @ rest)) = Some rest" by simp
    with Cons.prems show ?thesis by (simp add: first_append)
  qed
qed

lemma first_PlusCls:
  "p \<noteq> [] \<Longrightarrow> set p \<subseteq> set cls \<Longrightarrow> rest = [] \<or> hd rest \<notin> set cls \<Longrightarrow>
   first (matches w (PlusCls cls) (p @ rest, g)) = Some (rest, g)"
  using first_plus_cls[of p cls rest]
  by (cases "plus_cls cls (p @ rest)") (simp_all add: first_def)

lemma first_Dot:
  "c \<noteq> CHR 0x0A \<Longrightarrow> first (matches w Dot (c # s, g)) = Some (s, g)"
  by (simp add: first_def)

lemma first_Group:
  "first (matches w a (s, g)) = Some (s', g') \<Longrightarrow>
   first (matches w (Group i a) (s, g)) = Some (s', (i, take (length s - length s') s) # g')"
  by (cases "matches w a (s, g)") (simp_all add: first_def)

lemma first_Opt_taken:
  "first (matches w a st) = Some x \<Longrightarrow> first (matches w (Opt a) st) = Some x"
  by (simp add: first_append)

lemma first_Opt_skipped:
  "matches w a st = [] \<Longrightarrow> first (matches w (Opt a) st) = Some st"
  by (simp add: first_def)

lemma dot_not_digit: "CHR ''.'' \<notin> set digits"
  by (simp add: digits_def)

lemma digits_lowers_disjoint: "c \<in> set digits \<Longrightarrow> c \<notin> set lowers"
  by (auto simp: digits_def lowers_def)

lemma first_release:
  assumes a: "a \<noteq> []" "set a \<subseteq> set digits"
    and b: "b \<noteq> []" "set b \<subseteq> set digits"
    and c: "c \<noteq> []" "set c \<subseteq> set digits"
    and rest: "rest = [] \<or> hd rest \<notin> set digits"
  shows "first (matches w (Seq (PlusCls digits) (Seq Dot (Seq (PlusCls digits) (Seq Dot (PlusCls digits)))))
            (a @ CHR ''.'' # b @ CHR ''.'' # c @ rest, g)) = Some (rest, g)"
proof -
  have 1: "first (matches w (PlusCls digits) (a @ (CHR ''.'' # b @ CHR ''.'' # c @ rest), g))
             = Some (CHR ''.'' # b @ CHR ''.'' # c @ rest, g)"
    using a by (intro first_PlusCls) (simp_all add: dot_not_digit)
  have 2: "first (matches w Dot (CHR ''.'' # b @ CHR ''.'' # c @ rest, g)) = Some (b @ CHR ''.'' # c @ rest, g)"
    by (rule first_Dot) simp
  have 3: "first (matches w (PlusCls digits) (b @ (CHR ''.'' # c @ rest), g)) = Some (CHR ''.'' # c @ rest, g)"
    using b by (intro first_PlusCls) (simp_all add: dot_not_digit)
  have 4: "first (matches w Dot (CHR ''.'' # c @ rest, g)) = Some (c @ rest, g)"
    by (rule first_Dot) simp
  have 5: "first (matches w (PlusCls digits) (c @ rest, g)) = Some (rest, g)"
    using c rest by (intro first_PlusCls)
  from 4 5 have "first (matches w (Seq Dot (PlusCls digits)) (CHR ''.'' # c @ rest, g)) = Some (rest, g)"
    by (rule first_Seq)
  with 3 have "first (matches w (Seq (PlusCls digits) (Seq Dot (PlusCls digits))) (b @ (CHR ''.'' # c @ rest), g)) = Some (rest, g)"
    by (rule first_Seq)
  with 2 have "first (matches w (Seq Dot (Seq (PlusCls digits) (Seq Dot (PlusCls digits)))) (CHR ''.'' # b @ CHR ''.'' # c @ rest, g)) = Some (rest, g)"
    by (rule first_Seq[where mid = "(b @ CHR ''.'' # c @ rest, g)"])
  with 1 show ?thesis
    by (rule first_Seq)
qed

lemma re_match_release_only:
  assumes a: "a \<noteq> []" "set a \<subseteq> set digits"
    and b: "b \<noteq> []" "set b \<subseteq> set digits"
    and c: "c \<noteq> []" "set c \<subseteq> set digits"
  shows "re_match VERSIONS_RE (a @ CHR ''.'' # b @ CHR ''.'' # c) = Some [(1, a @ CHR ''.'' # b @ CHR ''.'' # c)]"
proof -
  let ?v = "a @ CHR ''.'' # b @ CHR ''.'' # c"
  have "first (matches ?v (Seq (PlusCls digits) (Seq Dot (Seq (PlusCls digits) (Seq Dot (PlusCls digits)))))
            (a @ CHR ''.'' # b @ CHR ''.'' # c @ [], [])) = Some ([], [])"
    using a b c by (intro first_release) simp_all
  then have "first (matches ?v (Group 1 (Seq (PlusCls digits) (Seq Dot (Seq (PlusCls digits) (Seq Dot (PlusCls digits))))))
            (?v, [])) = Some ([], [(1, take (length ?v - length ([]::string)) ?v)])"
    by (intro first_Group) simp
  then have 1: "first (matches ?v (Group 1 (Seq (PlusCls digits) (Seq Dot (Seq (PlusCls digits) (Seq Dot (PlusCls digits))))))
            (?v, [])) = Some ([], [(1, ?v)])"
    by simp
  have 2: "first (matches ?v (Opt (Group 2 (Seq (PlusCls lowers) (PlusCls digits)))) ([], [(1, ?v)])) = Some ([], [(1, ?v)])"
    by (rule first_Opt_skipped) simp
  from 1 2 have "first (matches ?v VERSIONS_RE (?v, [])) = Some ([], [(1, ?v)])"
    unfolding VERSIONS_RE_def by (rule first_Seq)
  then show ?thesis by (simp add: re_match_first)
qed

lemma re_match_with_prerelease:
  assumes a: "a \<noteq> []" "set a \<subseteq> set digits"
    and b: "b \<noteq> []" "set b \<subseteq> set digits"
    and c: "c \<noteq> []" "set c \<subseteq> set digits"
    and l: "l \<noteq> []" "set l \<subseteq> set lowers"
    and n: "n \<noteq> []" "set n \<subseteq> set digits"
  shows "re_match VERSIONS_RE ((a @ CHR ''.'' # b @ CHR ''.'' # c) @ l @ n)
           = Some [(2, l @ n), (1, a @ CHR ''.'' # b @ CHR ''.'' # c)]"
proof -
  let ?r = "a @ CHR ''.'' # b @ CHR ''.'' # c"
  let ?v = "?r @ l @ n"
  from l have hl: "hd (l @ n) \<in> set lowers" by (cases l) auto
  then have hl': "hd (l @ n) \<notin> set digits" using digits_lowers_disjoint by blast
  from n have hn: "hd n \<notin> set lowers" using digits_lowers_disjoint by (cases n) auto
  have "first (matches ?v (Seq (PlusCls digits) (Seq Dot (Seq (PlusCls digits) (Seq Dot (PlusCls digits)))))
            (a @ CHR ''.'' # b @ CHR ''.'' # c @ (l @ n), [])) = Some (l @ n, [])"
    using a b c hl' by (intro first_release) simp_all
  then have "first (matches ?v (Seq (PlusCls digits) (Seq Dot (Seq (PlusCls digits) (Seq Dot (PlusCls digits)))))
            (?v, [])) = Some (l @ n, [])"
    by simp
  then have "first (matches ?v (Group 1 (Seq (PlusCls digits) (Seq Dot (Seq (PlusCls digits) (Seq Dot (PlusCls digits))))))
            (?v, [])) = Some (l @ n, [(1, take (length ?v - length (l @ n)) ?v)])"
    by (rule first_Group)
  then have 1: "first (matches ?v (Group 1 (Seq (PlusCls digits) (Seq Dot (Seq (PlusCls digits) (Seq Dot (PlusCls digits))))))
            (?v, [])) = Some (l @ n, [(1, ?r)])"
    by simp
  have 2: "first (matches ?v (PlusCls lowers) (l @ n, [(1, ?r)])) = Some (n, [(1, ?r)])"
    using l hn by (intro first_PlusCls) simp_all
  have "first (matches ?v (PlusCls digits) (n @ [], [(1, ?r)])) = Some ([], [(1, ?r)])"
    using n by (intro first_PlusCls) simp_all
  then have 3: "first (matches ?v (PlusCls digits) (n, [(1, ?r)])) = Some ([], [(1, ?r)])"
    by simp
  from 2 3 have "first (matches ?v (Seq (PlusCls lowers) (PlusCls digits)) (l @ n, [(1, ?r)])) = Some ([], [(1, ?r)])"
    by (rule first_Seq)
  then have "first (matches ?v (Group 2 (Seq (PlusCls lowers) (PlusCls digits))) (l @ n, [(1, ?r)]))
      = Some ([], [(2, take (length (l @ n) - length ([]::string)) (l @ n)), (1, ?r)])"
    by (rule first_Group)
  then have "first (matches ?v (Opt (Group 2 (Seq (PlusCls lowers) (PlusCls digits)))) (l @ n, [(1, ?r)]))
      = Some ([], [(2, l @ n), (1, ?r)])"
    by (simp add: first_append)
  with 1 have "first (matches ?v VERSIONS_RE (?v, [])) = Some ([], [(2, l @ n), (1, ?r)])"
    unfolding VERSIONS_RE_def by (rule first_Seq)
  then show ?thesis by (simp add: re_match_first)
qed

subsection \<open>\<open>rebuild_version\<close>\<close>

text \<open>
  Versions written as three runs of digits joined by dots, alone or followed by a run
  of lower-case letters and a run of digits: the engine's first match takes the whole
  string, so the delimiter lands between the triple and the suffix.
\<close>

lemma rebuild_version_release_only:
  assumes "a \<noteq> []" "set a \<subseteq> set digits" "b \<noteq> []" "set b \<subseteq> set digits"
    "c \<noteq> []" "set c \<subseteq> set digits"
  shows "rebuild_version (a @ CHR ''.'' # b @ CHR ''.'' # c) delim = Inr (a @ CHR ''.'' # b @ CHR ''.'' # c)"
  using re_match_release_only[OF assms]
  by (simp add: rebuild_version_def group_def)

lemma rebuild_version_with_prerelease:
  assumes "a \<noteq> []" "set a \<subseteq> set digits" "b \<noteq> []" "set b \<subseteq> set digits"
    "c \<noteq> []" "set c \<subseteq> set digits" "l \<noteq> []" "set l \<subseteq> set lowers"
    "n \<noteq> []" "set n \<subseteq> set digits"
  shows "rebuild_version ((a @ CHR ''.'' # b @ CHR ''.'' # c) @ l @ n) delim
           = Inr ((a @ CHR ''.'' # b @ CHR ''.'' # c) @ delim @ l @ n)"
  using re_match_with_prerelease[OF assms] assms(7)
  by (simp add: rebuild_version_def group_def)

lemma rebuild_version_groups:
  assumes "re_match VERSIONS_RE version = Some m"
  shows "\<exists>release. group m 1 = Some release \<and> release_shape release \<and>
           (case group m 2 of
              None \<Rightarrow> (\<exists>rest. version = release @ rest) \<and>
                 rebuild_version version delim = Inr release
            | Some prelease \<Rightarrow> prerelease_shape prelease \<and>
                 (\<exists>rest. version = release @ prelease @ rest) \<and>
                 rebuild_version version delim = Inr (release @ delim @ prelease))"
proof -
  from re_match_VERSIONS_RE[OF assms] obtain r rest where
    r: "release_shape r" "group m 1 = Some r"
    and d: "(group m 2 = None \<and> version = r @ rest) \<or>
            (\<exists>p. prerelease_shape p \<and> group m 2 = Some p \<and> version = r @ p @ rest)"
    by blast
  from d show ?thesis
  proof
    assume n: "group m 2 = None \<and> version = r @ rest"
    then have "rebuild_version version delim = Inr r"
      using assms r by (simp add: rebuild_version_def)
    with r n show ?thesis by auto
  next
    assume "\<exists>p. prerelease_shape p \<and> group m 2 = Some p \<and> version = r @ p @ rest"
    then obtain p where p: "prerelease_shape p" "group m 2 = Some p" "version = r @ p @ rest"
      by blast
    then have "p \<noteq> []" by (simp add: prerelease_shape_nonempty)
    then have "rebuild_version version delim = Inr (r @ delim @ p)"
      using assms r p by (simp add: rebuild_version_def)
    with r p show ?thesis by auto
  qed
qed

lemma rebuild_version_no_type_error: "rebuild_version version delim \<noteq> Inl TypeError"
proof (cases "re_match VERSIONS_RE version")
  case None
  then show ?thesis by (simp add: rebuild_version_def)
next
  case (Some m)
  from re_match_VERSIONS_RE[OF Some] obtain r where "group m 1 = Some r" by blast
  with Some show ?thesis
    by (simp add: rebuild_version_def split: option.splits)
qed

lemmas versions_eval = rebuild_version_def re_match_def VERSIONS_RE_def digits_def lowers_def group_def

text \<open>
  Claim C6. \<open>rebuild_version "4.5.6rc1" "~"\<close> returns \<open>"4.5.6~rc1"\<close> and
  \<open>rebuild_version "4.5.6" "~"\<close> returns \<open>"4.5.6"\<close>. In general, whenever the version
  regex matches a version, group 1 (the release triple: three runs of digits with a
  separator between them) is there and starts the version; when group 2 (the
  pre-release part: letters, then digits) took part, it follows the triple in the
  version and the result is the triple, the delimiter and the pre-release part; when
  it did not, the result is the triple, unchanged.
\<close>

theorem rebuild_version_spec:
  "rebuild_version ''4.5.6rc1'' ''~'' = Inr ''4.5.6~rc1'' \<and>
   rebuild_version ''4.5.6'' ''~'' = Inr ''4.5.6'' \<and>
   (\<forall>version delim m. re_match VERSIONS_RE version = Some m \<longrightarrow>
      (\<exists>release. group m 1 = Some release \<and> release_shape release \<and>
         (case group m 2 of
            None \<Rightarrow> (\<exists>rest. version = release @ rest) \<and>
               rebuild_version version delim = Inr release
          | Some prelease \<Rightarrow> prerelease_shape prelease \<and>
               (\<exists>rest. version = release @ prelease @ rest) \<and>
               rebuild_version version delim = Inr (release @ delim @ prelease))))"
proof (intro conjI allI impI)
  show "rebuild_version ''4.5.6rc1'' ''~'' = Inr ''4.5.6~rc1''"
    by (simp add: versions_eval)
  show "rebuild_version ''4.5.6'' ''~'' = Inr ''4.5.6''"
    by (simp add: versions_eval)
next
  fix version delim m
  assume "re_match VERSIONS_RE version = Some m"
  then show "\<exists>release. group m 1 = Some release \<and> release_shape release \<and>
         (case group m 2 of
            None \<Rightarrow> (\<exists>rest. version = release @ rest) \<and>
               rebuild_version version delim = Inr release
          | Some prelease \<Rightarrow> prerelease_shape prelease \<and>
               (\<exists>rest. version = release @ prelease @ rest) \<and>
               rebuild_version version delim = Inr (release @ delim @ prelease))"
    by (rule rebuild_version_groups)
qed

text \<open>The general part at \<open>"1.2.3rc11"\<close> with the delimiter \<open>"-"\<close>.\<close>

theorem rebuild_version_spec_witness:
  "re_match VERSIONS_RE ''1.2.3rc11'' = Some [(2, ''rc11''), (1, ''1.2.3'')] \<and>
   rebuild_version ''1.2.3rc11'' ''-'' = Inr ''1.2.3-rc11'' \<and>
   release_shape ''1.2.3'' \<and> prerelease_shape ''rc11''"
proof -
  have m: "re_match VERSIONS_RE ''1.2.3rc11'' = Some [(2, ''rc11''), (1, ''1.2.3'')]"
    by (simp add: versions_eval)
  from rebuild_version_spec have
    "\<exists>release. group [(2, ''rc11''), (1, ''1.2.3'')] 1 = Some release \<and> release_shape release \<and>
         (case group [(2, ''rc11''), (1, ''1.2.3'')] 2 of
            None \<Rightarrow> (\<exists>rest. ''1.2.3rc11'' = release @ rest) \<and>
               rebuild_version ''1.2.3rc11'' ''-'' = Inr release
          | Some prelease \<Rightarrow> prerelease_shape prelease \<and>
               (\<exists>rest. ''1.2.3rc11'' = release @ prelease @ rest) \<and>
               rebuild_version ''1.2.3rc11'' ''-'' = Inr (release @ ''-'' @ prelease))"
    using m by blast
  then have "release_shape ''1.2.3'' \<and> prerelease_shape ''rc11'' \<and>
     rebuild_version ''1.2.3rc11'' ''-'' = Inr (''1.2.3'' @ ''-'' @ ''rc11'')"
    by (auto simp: group_def)
  with m show ?thesis by simp
qed

subsection \<open>The strings \<open>strptime\<close> accepts\<close>














subsection \<open>\<open>validate_versions\<close>\<close>






lemma validate_release_ok:
  "validate_release release = Inr () \<longleftrightarrow> list_all field_passes release"
proof (induction release)
  case Nil
  show ?case by simp
next
  case (Cons item items)
  obtain field v where item: "item = (field, v)" by (cases item)
  show ?case
  proof (cases "map_of NECESSARY_FIELDS field")
    case None
    then show ?thesis by (simp add: item field_passes_def)
  next
    case (Some validator)
    show ?thesis
    proof (cases "validator v")
      case (Inl e)
      with Some show ?thesis by (simp add: item field_passes_def)
    next
      case (Inr ok)
      with Some Cons.IH show ?thesis by (cases ok) (simp_all add: item field_passes_def)
    qed
  qed
qed


lemma validate_versions_ok:
  "validate_versions versions = Inr () \<longleftrightarrow>
     list_all (\<lambda>release. validate_release release = Inr ()) versions"
  by (induction versions) (auto split: sum.splits)


lemma validate_versions_accepts:
  "validate_versions versions = Inr () \<longleftrightarrow>
     list_all (list_all field_passes) versions"
  by (simp add: validate_versions_ok validate_release_ok)







lemmas strptime_eval =
  strptime_def STRPTIME_RE_def YEAR_RE_def MONTH_RE_def DAY_RE_def HOUR_RE_def MINUTE_RE_def
  digits_def nonzero_digits_def whitespace_def group_def days_in_month_def

lemmas manifest_eval =
  NECESSARY_FIELDS_def re_matches_def validate_date_time_def re_match_def VERSIONS_RE_def
  AUTHOR_RE_def URGENCY_RE_def STABILITY_RE_def EMAIL_RE_def lowers_def uppers_def
  letters_def is_str_def strptime_eval



text \<open>
  A release that omits six of the recognised fields and is rejected all the same, for
  the field it has.
\<close>

theorem validate_versions_missing_fields_counterexample:
  "validate_versions [[(''version'', PyStr ''x'')]] = Inl ValueError"
  by (simp add: manifest_eval)

text \<open>
  Claim C10, amended. \<open>validate_versions\<close> validates only the fields that are present:
  a manifest is accepted exactly when every field present in its releases passes its
  validator, whatever recognised fields the releases omit; leaving any set of fields
  out of the releases of an accepted manifest gives an accepted manifest; releases
  that are empty dictionaries are accepted. A missing field is never reported.
\<close>

theorem validate_versions_missing_fields:
  "(\<forall>versions.
      validate_versions versions = Inr () \<longleftrightarrow> list_all (list_all field_passes) versions) \<and>
   (\<forall>versions omitted.
      validate_versions versions = Inr () \<longrightarrow>
      validate_versions (map (omit_fields omitted) versions) = Inr ()) \<and>
   (\<forall>n. validate_versions (replicate n []) = Inr ())"
proof (intro conjI allI impI)
  fix versions :: "release list"
  show "validate_versions versions = Inr () \<longleftrightarrow> list_all (list_all field_passes) versions"
    by (rule validate_versions_accepts)
next
  fix versions :: "release list" and omitted
  assume "validate_versions versions = Inr ()"
  then have "list_all (list_all field_passes) versions"
    by (simp add: validate_versions_accepts)
  then have "list_all (list_all field_passes) (map (omit_fields omitted) versions)"
    by (auto simp: list_all_iff omit_fields_def)
  then show "validate_versions (map (omit_fields omitted) versions) = Inr ()"
    by (simp add: validate_versions_accepts)
next
  fix n
  show "validate_versions (replicate n []) = Inr ()"
    by (induction n) simp_all
qed

text \<open>A release without four of the fields, and the same with two more left out.\<close>

theorem validate_versions_missing_fields_witness:
  "validate_versions
     [[(''version'', PyStr ''4.5.6rc1''), (''time'', PyStr ''2023/01/05 10:00''),
       (''author'', PyStr ''Jane Doe'')]] = Inr () \<and>
   map (omit_fields {''version'', ''author''})
     [[(''version'', PyStr ''4.5.6rc1''), (''time'', PyStr ''2023/01/05 10:00''),
       (''author'', PyStr ''Jane Doe'')]] = [[(''time'', PyStr ''2023/01/05 10:00'')]] \<and>
   validate_versions [[(''time'', PyStr ''2023/01/05 10:00'')]] = Inr ()"
proof -
  let ?v = "[[(''version'', PyStr ''4.5.6rc1''), (''time'', PyStr ''2023/01/05 10:00''),
       (''author'', PyStr ''Jane Doe'')]]"
  have 1: "validate_versions ?v = Inr ()"
    by (simp add: manifest_eval)
  have 2: "map (omit_fields {''version'', ''author''}) ?v = [[(''time'', PyStr ''2023/01/05 10:00'')]]"
    by (simp add: omit_fields_def)
  from 1 have "validate_versions (map (omit_fields {''version'', ''author''}) ?v) = Inr ()"
    using validate_versions_missing_fields[THEN conjunct2, THEN conjunct1, rule_format,
        of ?v "{''version'', ''author''}"]
    by blast
  with 1 2 show ?thesis by simp
qed

section \<open>Verification of widgets/login.py\<close>

lemmas login_defs =
  on_entry_changed_def set_username_def set_password_def set_error_message_def
  login_form_reset_def two_factor_auth_form_reset_def emit_def signal_user_logged_in_def
  display_form_def login_widget_reset_def on_user_authenticated_def
  on_two_factor_auth_successful_def on_session_expired_during_2fa_def
  signal_user_authenticated_def on_login_button_clicked_def on_login_result_def
  on_press_enter_def submit_login_def on_2fa_submission_button_clicked_def
  signal_two_factor_auth_successful_def on_2fa_submission_result_def

lemma strip_Nil [simp]: "strip [] = []"
  by (simp add: strip_def)

subsection \<open>The login button follows the two entries\<close>








lemma login_form_emit [simp]: "login_form (emit s w) = login_form w"
  by (simp add: emit_def)











lemmas login_eval = login_defs login_widget_init_def login_form_init_def
  two_factor_auth_form_init_def run_def strip_def whitespace_def


text \<open>With both texts provided the button is sensitive and Enter submits.\<close>

lemma login_button_enabled_example:
  "login_button_sensitive (login_form (run [Edit_username ''alice'', Edit_password ''secret''])) \<and>
   controller_calls (step Press_enter (run [Edit_username ''alice'', Edit_password ''secret'']))
     = [Login ''alice'' ''secret'']"
  by (simp add: login_eval Let_def)

subsection \<open>The results of the controller\<close>

text \<open>
  A submission whose future raises \<open>ValueError\<close>, the only way a malformed username
  shows in this module: \<open>Controller.login\<close> has been called with the texts of the
  entries.
\<close>

theorem malformed_username_counterexample:
  "controller_calls
     (snd (on_login_result (Inl ValueError)
        (step Click_login (run [Edit_username ''not a user'', Edit_password ''secret'']))))
   = [Login ''not a user'' ''secret'']"
  by (simp add: login_eval Let_def)

text \<open>
  Claim C2, amended. A submission always calls \<open>Controller.login\<close> with the username and
  the password of the entries. When the future of that call raises \<open>ValueError\<close>, the
  login form shows \<open>Invalid username.\<close>, emits \<open>login-error\<close>, stops the spinner, keeps
  the entries and the visible form, and lets no exception out.
\<close>

theorem malformed_username_reported:
  "(case on_login_result (Inl ValueError) (on_login_button_clicked w) of
      (exc, w') \<Rightarrow>
        exc = None \<and>
        error_message (login_form w') = ''Invalid username.'' \<and>
        emitted w' = emitted w @ [Login_error] \<and>
        \<not> login_spinner_spinning (login_form w') \<and>
        username (login_form w') = username (login_form w) \<and>
        password (login_form w') = password (login_form w) \<and>
        active_form w' = active_form w \<and> visible_child w' = visible_child w \<and>
        controller_calls w' =
          controller_calls w @ [Login (username (login_form w)) (password (login_form w))])"
  by (simp add: login_defs Let_def)

text \<open>
  Claim C4. For a login result with \<open>authenticated\<close> true: when two-factor
  authentication is not required, \<open>user-authenticated\<close> and then \<open>user-logged-in\<close> are
  emitted and neither the visible child, the active form nor the 2FA form changes;
  when it is required, the 2FA form becomes the active form and the visible child,
  with its error message and its code entry empty, and \<open>user-logged-in\<close> is not
  emitted.
\<close>

theorem login_result_authenticated:
  "(case on_login_result (Inr \<lparr>authenticated = True, twofa_required = False\<rparr>) w of
      (exc, w') \<Rightarrow>
        exc = None \<and>
        emitted w' = emitted w @ [User_authenticated False, User_logged_in] \<and>
        visible_child w' = visible_child w \<and> active_form w' = active_form w \<and>
        two_factor_auth_form w' = two_factor_auth_form w) \<and>
   (case on_login_result (Inr \<lparr>authenticated = True, twofa_required = True\<rparr>) w of
      (exc, w') \<Rightarrow>
        exc = None \<and>
        emitted w' = emitted w @ [User_authenticated True] \<and>
        visible_child w' = Some Two_factor_auth_form_2fa \<and>
        active_form w' = Some Two_factor_auth_form_2fa \<and>
        two_factor_error_message (two_factor_auth_form w') = [] \<and>
        two_factor_auth_code (two_factor_auth_form w') = [])"
  by (simp add: login_defs Let_def)

text \<open>
  Claim C5. For a 2FA submission result with \<open>authenticated\<close> false, \<open>session-expired\<close>
  is emitted and the login form becomes the active form and the visible child, with
  its username, password and error message empty.
\<close>

theorem session_expired_during_2fa:
  "(case on_2fa_submission_result (Inr \<lparr>authenticated = False, twofa_required = t\<rparr>) w of
      (exc, w') \<Rightarrow>
        exc = None \<and>
        emitted w' = emitted w @ [Session_expired] \<and>
        visible_child w' = Some Login_form \<and> active_form w' = Some Login_form \<and>
        username (login_form w') = [] \<and> password (login_form w') = [] \<and>
        error_message (login_form w') = [])"
  by (simp add: login_defs Let_def)

section \<open>Verification of app.py\<close>

subsection \<open>The loop over the queue\<close>

lemma resolves_connect_request:
  "resolves win request \<Longrightarrow> connect_request win request = Inr (connection_of request)"
  by (cases request)
    (auto simp: resolves_def connect_request_def connection_of_def
      split: sum.splits list.splits if_splits)

lemma not_resolves_connect_request:
  "\<not> resolves win request \<Longrightarrow> \<exists>e. connect_request win request = Inl e"
  by (cases "connect_request win request") (simp_all add: resolves_def)

lemma process_requests_resolving:
  "list_all (resolves win) queue \<Longrightarrow>
   process_requests win queue conns = (None, [], conns @ map connection_of queue)"
  by (induction queue arbitrary: conns) (simp_all add: resolves_connect_request)

lemma process_requests_append:
  "list_all (resolves win) pre \<Longrightarrow>
   process_requests win (pre @ queue) conns =
     process_requests win queue (conns @ map connection_of pre)"
  by (induction pre arbitrary: conns) (simp_all add: resolves_connect_request)

lemma process_requests_failing:
  assumes "list_all (resolves win) pre" "connect_request win request = Inl e"
  shows "process_requests win (pre @ request # rest) conns =
           (Some e, rest, conns @ map connection_of pre)"
  using assms by (simp add: process_requests_append)

lemma process_requests_connections:
  "snd (snd (process_requests win queue conns)) =
     conns @ map connection_of (takeWhile (resolves win) queue)"
proof (induction queue arbitrary: conns)
  case Nil
  show ?case by simp
next
  case (Cons request queue)
  show ?case
  proof (cases "resolves win request")
    case True
    with Cons show ?thesis by (simp add: resolves_connect_request)
  next
    case False
    then obtain e where "connect_request win request = Inl e"
      using not_resolves_connect_request by blast
    with False show ?thesis by simp
  qed
qed

lemma process_requests_queue:
  "fst (snd (process_requests win queue conns)) = drop 1 (dropWhile (resolves win) queue)"
proof (induction queue arbitrary: conns)
  case Nil
  show ?case by simp
next
  case (Cons request queue)
  show ?case
  proof (cases "resolves win request")
    case True
    with Cons show ?thesis by (simp add: resolves_connect_request)
  next
    case False
    then obtain e where "connect_request win request = Inl e"
      using not_resolves_connect_request by blast
    with False show ?thesis by simp
  qed
qed

subsection \<open>Queueing and activation\<close>

lemma queue_signal_connect_no_window:
  "window a = None \<Longrightarrow>
   queue_signal_connect request a =
     (None, a\<lparr>signal_connect_queue := signal_connect_queue a @ [request]\<rparr>)"
  by (simp add: queue_signal_connect_def)

lemma queue_all_no_window:
  "window a = None \<Longrightarrow>
   queue_all requests a = a\<lparr>signal_connect_queue := signal_connect_queue a @ requests\<rparr>"
  unfolding queue_all_def
  by (induction requests arbitrary: a) (simp_all add: queue_signal_connect_no_window)

lemma queue_all_app_init:
  "queue_all requests app_init =
     \<lparr>window = None, signal_connect_queue = requests, connections = [], app_ready = 0\<rparr>"
  by (simp add: queue_all_no_window app_init_def)

lemma process_requests_exception:
  "fst (process_requests win queue conns) = first_failure win queue"
proof (induction queue arbitrary: conns)
  case Nil
  show ?case by (simp add: first_failure_def)
next
  case (Cons request queue)
  show ?case
  proof (cases "resolves win request")
    case True
    with Cons show ?thesis by (simp add: resolves_connect_request first_failure_def)
  next
    case False
    then obtain e where "connect_request win request = Inl e"
      using not_resolves_connect_request by blast
    with False show ?thesis by (simp add: first_failure_def)
  qed
qed

lemma process_requests_result:
  "process_requests win queue conns =
     (first_failure win queue, drop 1 (dropWhile (resolves win) queue),
      conns @ map connection_of (takeWhile (resolves win) queue))"
  using process_requests_exception[of win queue conns] process_requests_queue[of win queue conns]
    process_requests_connections[of win queue conns]
  by (cases "process_requests win queue conns") simp

lemma first_failure_None: "first_failure win queue = None \<longleftrightarrow> list_all (resolves win) queue"
proof (induction queue)
  case Nil
  show ?case by (simp add: first_failure_def)
next
  case (Cons request queue)
  show ?case
  proof (cases "resolves win request")
    case True
    with Cons show ?thesis by (simp add: first_failure_def)
  next
    case False
    then obtain e where "connect_request win request = Inl e"
      using not_resolves_connect_request by blast
    with False show ?thesis by (simp add: first_failure_def)
  qed
qed

lemma first_failure_not_gobject:
  assumes "list_all (resolves win) pre" "connect_request win request = Inl e"
  shows "first_failure win (pre @ request # rest) = Some e"
proof -
  from assms(2) have "\<not> resolves win request" by (simp add: resolves_def)
  with assms(1) have "dropWhile (resolves win) (pre @ request # rest) = request # rest"
    by (induction pre) simp_all
  with assms(2) show ?thesis by (simp add: first_failure_def)
qed

lemma do_activate_queued:
  "do_activate win (queue_all requests app_init) =
     (first_failure win requests,
      \<lparr>window = Some win,
       signal_connect_queue = drop 1 (dropWhile (resolves win) requests),
       connections = map connection_of (takeWhile (resolves win) requests),
       app_ready = (if list_all (resolves win) requests then 1 else 0)\<rparr>)"
proof (cases "first_failure win requests")
  case None
  then have "list_all (resolves win) requests" by (simp add: first_failure_None)
  with None show ?thesis
    by (simp add: queue_all_app_init do_activate_def process_signal_connect_queue_def
        process_requests_result)
next
  case (Some e)
  then have "\<not> list_all (resolves win) requests"
    using first_failure_None[of win requests] by simp
  with Some show ?thesis
    by (simp add: queue_all_app_init do_activate_def process_signal_connect_queue_def
        process_requests_result)
qed

lemma queue_signal_connect_window:
  "window a = Some win \<Longrightarrow>
   queue_signal_connect request a =
     (first_failure win (signal_connect_queue a @ [request]),
      a\<lparr>signal_connect_queue :=
          drop 1 (dropWhile (resolves win) (signal_connect_queue a @ [request])),
        connections :=
          connections a @
          map connection_of (takeWhile (resolves win) (signal_connect_queue a @ [request]))\<rparr>)"
  by (simp add: queue_signal_connect_def process_signal_connect_queue_def
      process_requests_result)

lemma resolves_iff:
  "resolves win (signal_spec, callback) \<longleftrightarrow>
     (\<exists>widget_path signal_name obj.
        str_split ''::'' signal_spec = [widget_path, signal_name] \<and>
        follow_path win (str_split ''.'' widget_path) = Inr obj \<and>
        is_gobject obj \<and> signal_name \<in> set (signal_names obj))"
  by (auto simp: resolves_def connect_request_def split: list.splits sum.splits)

text \<open>
  Claim C1, amended. A request resolves in a window when its specification has the
  form \<open>path::signal\<close> and the path leads from the window to a \<open>GObject.Object\<close> that
  has the signal. For every list of requests queued before the window exists,
  activation sets the window and connects, once each and in the order of submission,
  the requests in front of the first one that does not resolve; that request is
  removed from the queue without a connection and its exception leaves the
  activation, before \<open>app-ready\<close> is emitted; the requests behind it stay queued. When
  every request resolves, no exception is raised, every request is connected exactly
  once in the order of submission, and the queue is empty. A request made when the
  window exists is appended and the queue is processed in the call itself, by the same
  rule; the request is connected in that call when it and the requests still queued
  resolve, and then the queue is empty when the call returns.
\<close>

theorem queued_requests_connected_fifo:
  "(\<forall>win signal_spec (callback :: 'cb).
      resolves win (signal_spec, callback) \<longleftrightarrow>
        (\<exists>widget_path signal_name obj.
           str_split ''::'' signal_spec = [widget_path, signal_name] \<and>
           follow_path win (str_split ''.'' widget_path) = Inr obj \<and>
           is_gobject obj \<and> signal_name \<in> set (signal_names obj))) \<and>
   (\<forall>win (requests :: (string \<times> 'cb) list).
      do_activate win (queue_all requests app_init) =
        (first_failure win requests,
         \<lparr>window = Some win,
          signal_connect_queue = drop 1 (dropWhile (resolves win) requests),
          connections = map connection_of (takeWhile (resolves win) requests),
          app_ready = (if list_all (resolves win) requests then 1 else 0)\<rparr>)) \<and>
   (\<forall>win (requests :: (string \<times> 'cb) list).
      first_failure win requests = None \<longleftrightarrow> list_all (resolves win) requests) \<and>
   (\<forall>win (requests :: (string \<times> 'cb) list).
      list_all (resolves win) requests \<longrightarrow>
      do_activate win (queue_all requests app_init) =
        (None,
         \<lparr>window = Some win, signal_connect_queue = [],
          connections = map connection_of requests, app_ready = 1\<rparr>)) \<and>
   (\<forall>win (a :: 'cb app) request.
      window a = Some win \<longrightarrow>
      queue_signal_connect request a =
        (first_failure win (signal_connect_queue a @ [request]),
         a\<lparr>signal_connect_queue :=
             drop 1 (dropWhile (resolves win) (signal_connect_queue a @ [request])),
           connections :=
             connections a @
             map connection_of
               (takeWhile (resolves win) (signal_connect_queue a @ [request]))\<rparr>)) \<and>
   (\<forall>win (a :: 'cb app) request.
      window a = Some win \<and> list_all (resolves win) (signal_connect_queue a @ [request]) \<longrightarrow>
      queue_signal_connect request a =
        (None, a\<lparr>signal_connect_queue := [],
                 connections := connections a @ map connection_of (signal_connect_queue a)
                                  @ [connection_of request]\<rparr>))"
proof (intro conjI allI impI)
  fix win signal_spec and callback :: 'cb
  show "resolves win (signal_spec, callback) \<longleftrightarrow>
        (\<exists>widget_path signal_name obj.
           str_split ''::'' signal_spec = [widget_path, signal_name] \<and>
           follow_path win (str_split ''.'' widget_path) = Inr obj \<and>
           is_gobject obj \<and> signal_name \<in> set (signal_names obj))"
    by (rule resolves_iff)
next
  fix win and requests :: "(string \<times> 'cb) list"
  show "do_activate win (queue_all requests app_init) =
        (first_failure win requests,
         \<lparr>window = Some win,
          signal_connect_queue = drop 1 (dropWhile (resolves win) requests),
          connections = map connection_of (takeWhile (resolves win) requests),
          app_ready = (if list_all (resolves win) requests then 1 else 0)\<rparr>)"
    by (rule do_activate_queued)
next
  fix win and requests :: "(string \<times> 'cb) list"
  show "first_failure win requests = None \<longleftrightarrow> list_all (resolves win) requests"
    by (rule first_failure_None)
next
  fix win and requests :: "(string \<times> 'cb) list"
  assume r: "list_all (resolves win) requests"
  then have f: "first_failure win requests = None" by (simp add: first_failure_None)
  from r have t: "takeWhile (resolves win) requests = requests"
    by (simp add: list_all_iff)
  from r have d: "dropWhile (resolves win) requests = []"
    by (simp add: list_all_iff)
  show "do_activate win (queue_all requests app_init) =
        (None,
         \<lparr>window = Some win, signal_connect_queue = [],
          connections = map connection_of requests, app_ready = 1\<rparr>)"
    unfolding do_activate_queued f t d using r by simp
next
  fix win and a :: "'cb app" and request
  assume "window a = Some win"
  then show "queue_signal_connect request a =
        (first_failure win (signal_connect_queue a @ [request]),
         a\<lparr>signal_connect_queue :=
             drop 1 (dropWhile (resolves win) (signal_connect_queue a @ [request])),
           connections :=
             connections a @
             map connection_of
               (takeWhile (resolves win) (signal_connect_queue a @ [request]))\<rparr>)"
    by (rule queue_signal_connect_window)
next
  fix win and a :: "'cb app" and request
  assume h: "window a = Some win \<and> list_all (resolves win) (signal_connect_queue a @ [request])"
  then have "process_requests win (signal_connect_queue a @ [request]) (connections a) =
      (None, [], connections a @ map connection_of (signal_connect_queue a @ [request]))"
    by (intro process_requests_resolving) simp
  with h show "queue_signal_connect request a =
      (None, a\<lparr>signal_connect_queue := [],
               connections := connections a @ map connection_of (signal_connect_queue a)
                                @ [connection_of request]\<rparr>)"
    by (simp add: queue_signal_connect_def process_signal_connect_queue_def)
qed

lemma connect_request_not_gobject:
  assumes "str_split ''::'' signal_spec = [widget_path, signal_name]"
    "follow_path win (str_split ''.'' widget_path) = Inr obj" "\<not> is_gobject obj"
  shows "connect_request win (signal_spec, callback) = Inl AssertionError"
  using assms by (simp add: connect_request_def)

text \<open>
  Claim C8. When the request at the head of the unresolved part of the queue has a
  signal specification \<open>path::signal\<close> whose path leads from the window to an object
  that is not a \<open>GObject.Object\<close>, its turn of the loop raises \<open>AssertionError\<close>;
  processing the queue then ends with that exception, the connections of the requests
  before it made and none for it, and the request removed from the queue.
\<close>

theorem not_gobject_assertion_error:
  assumes "window a = Some win"
    and "signal_connect_queue a = pre @ (signal_spec, callback) # rest"
    and "list_all (resolves win) pre"
    and "str_split ''::'' signal_spec = [widget_path, signal_name]"
    and "follow_path win (str_split ''.'' widget_path) = Inr obj"
    and "\<not> is_gobject obj"
  shows "connect_request win (signal_spec, callback) = Inl AssertionError \<and>
         process_signal_connect_queue win a =
           (Some AssertionError,
            a\<lparr>signal_connect_queue := rest,
              connections := connections a @ map connection_of pre\<rparr>)"
proof -
  have c: "connect_request win (signal_spec, callback) = Inl AssertionError"
    using assms(4-6) by (rule connect_request_not_gobject)
  with assms(3) have "process_requests win (pre @ (signal_spec, callback) # rest) (connections a)
      = (Some AssertionError, rest, connections a @ map connection_of pre)"
    by (rule process_requests_failing)
  with assms(1,2) c show ?thesis
    by (simp add: process_signal_connect_queue_def)
qed

lemmas app_eval =
  str_split_def getattr_def connect_request_def resolves_def connection_of_def
  example_window_def queue_all_def queue_signal_connect_def process_signal_connect_queue_def
  do_activate_def app_init_def

text \<open>
  Two requests queued before activation, the first one addressed to a Python list:
  activation raises \<open>AssertionError\<close>, the first request is gone without a connection
  and the second is still queued, not connected.
\<close>

theorem queued_requests_counterexample:
  "do_activate example_window
     (queue_all [(''main_widget.notifications.error_dialogs::response'', 1 :: nat),
                 (''main_widget::main-widget-ready'', 2)] app_init)
   = (Some AssertionError,
      \<lparr>window = Some example_window,
       signal_connect_queue = [(''main_widget::main-widget-ready'', 2)],
       connections = [], app_ready = 0\<rparr>)"
  by (simp add: app_eval)

text \<open>
  Two requests that resolve, queued before activation; a third made afterwards; and a
  request that resolves, made when a request that does not is still queued.
\<close>

theorem queued_requests_connected_fifo_witness:
  "do_activate example_window
     (queue_all [(''main_widget.login_widget::user-logged-in'', 1 :: nat),
                 (''main_widget::main-widget-ready'', 2)] app_init)
   = (None,
      \<lparr>window = Some example_window, signal_connect_queue = [],
       connections = [(''main_widget.login_widget'', ''user-logged-in'', 1),
                      (''main_widget'', ''main-widget-ready'', 2)],
       app_ready = 1\<rparr>) \<and>
   queue_signal_connect (''main_widget.login_widget::user-logged-in'', 3 :: nat)
     \<lparr>window = Some example_window, signal_connect_queue = [],
      connections = [(''main_widget.login_widget'', ''user-logged-in'', 1),
                     (''main_widget'', ''main-widget-ready'', 2)],
      app_ready = 1\<rparr>
   = (None,
      \<lparr>window = Some example_window, signal_connect_queue = [],
       connections = [(''main_widget.login_widget'', ''user-logged-in'', 1),
                      (''main_widget'', ''main-widget-ready'', 2),
                      (''main_widget.login_widget'', ''user-logged-in'', 3)],
       app_ready = 1\<rparr>) \<and>
   queue_signal_connect (''main_widget::main-widget-ready'', 5 :: nat)
     \<lparr>window = Some example_window,
      signal_connect_queue = [(''main_widget.notifications.error_dialogs::response'', 4)],
      connections = [], app_ready = 0\<rparr>
   = (Some AssertionError,
      \<lparr>window = Some example_window,
       signal_connect_queue = [(''main_widget::main-widget-ready'', 5)],
       connections = [], app_ready = 0\<rparr>)"
proof (intro conjI)
  let ?requests = "[(''main_widget.login_widget::user-logged-in'', 1 :: nat),
                    (''main_widget::main-widget-ready'', 2)]"
  let ?a = "\<lparr>window = Some example_window, signal_connect_queue = [],
      connections = [(''main_widget.login_widget'', ''user-logged-in'', 1 :: nat),
                     (''main_widget'', ''main-widget-ready'', 2)],
      app_ready = 1\<rparr>"
  let ?request = "(''main_widget.login_widget::user-logged-in'', 3 :: nat)"
  let ?b = "\<lparr>window = Some example_window,
      signal_connect_queue = [(''main_widget.notifications.error_dialogs::response'', 4 :: nat)],
      connections = [], app_ready = 0\<rparr>"
  let ?late = "(''main_widget::main-widget-ready'', 5 :: nat)"
  have r: "list_all (resolves example_window) ?requests"
    by (simp add: app_eval)
  have m: "map connection_of ?requests
             = [(''main_widget.login_widget'', ''user-logged-in'', 1),
                (''main_widget'', ''main-widget-ready'', 2)]"
    by (simp add: connection_of_def str_split_def)
  from queued_requests_connected_fifo[THEN conjunct2, THEN conjunct2, THEN conjunct2,
      THEN conjunct1, rule_format, of example_window ?requests, OF r]
  show "do_activate example_window (queue_all ?requests app_init)
   = (None,
      \<lparr>window = Some example_window, signal_connect_queue = [],
       connections = [(''main_widget.login_widget'', ''user-logged-in'', 1),
                      (''main_widget'', ''main-widget-ready'', 2)],
       app_ready = 1\<rparr>)"
    by (simp only: m)
  have q: "window ?a = Some example_window \<and>
           list_all (resolves example_window) (signal_connect_queue ?a @ [?request])"
    by (simp add: app_eval)
  from queued_requests_connected_fifo[THEN conjunct2, THEN conjunct2, THEN conjunct2,
      THEN conjunct2, THEN conjunct2, rule_format, of ?a example_window ?request, OF q]
  show "queue_signal_connect ?request ?a =
      (None, \<lparr>window = Some example_window, signal_connect_queue = [],
       connections = [(''main_widget.login_widget'', ''user-logged-in'', 1),
                      (''main_widget'', ''main-widget-ready'', 2),
                      (''main_widget.login_widget'', ''user-logged-in'', 3)],
       app_ready = 1\<rparr>)"
    by (simp add: connection_of_def str_split_def)
  have w: "window ?b = Some example_window" by simp
  from queued_requests_connected_fifo[THEN conjunct2, THEN conjunct2, THEN conjunct2,
      THEN conjunct2, THEN conjunct1, rule_format, of ?b example_window ?late, OF w]
  show "queue_signal_connect ?late ?b =
      (Some AssertionError,
       \<lparr>window = Some example_window,
        signal_connect_queue = [(''main_widget::main-widget-ready'', 5)],
        connections = [], app_ready = 0\<rparr>)"
    by (simp add: first_failure_def str_split_def getattr_def connect_request_def resolves_def
        example_window_def)
qed

text \<open>
  A request to \<open>main_widget.notifications.error_dialogs\<close> between two that resolve.
\<close>

theorem not_gobject_assertion_error_witness:
  "process_signal_connect_queue example_window
     \<lparr>window = Some example_window,
      signal_connect_queue =
        [(''main_widget::main-widget-ready'', 1 :: nat),
         (''main_widget.notifications.error_dialogs::response'', 2),
         (''main_widget.login_widget::user-logged-in'', 3)],
      connections = [], app_ready = 0\<rparr>
   = (Some AssertionError,
      \<lparr>window = Some example_window,
       signal_connect_queue = [(''main_widget.login_widget::user-logged-in'', 3)],
       connections = [(''main_widget'', ''main-widget-ready'', 1)], app_ready = 0\<rparr>)"
proof -
  let ?a = "\<lparr>window = Some example_window,
      signal_connect_queue =
        [(''main_widget::main-widget-ready'', 1 :: nat),
         (''main_widget.notifications.error_dialogs::response'', 2),
         (''main_widget.login_widget::user-logged-in'', 3)],
      connections = [], app_ready = 0\<rparr>"
  have 1: "window ?a = Some example_window" by simp
  have 2: "signal_connect_queue ?a =
      [(''main_widget::main-widget-ready'', 1)]
        @ (''main_widget.notifications.error_dialogs::response'', 2)
        # [(''main_widget.login_widget::user-logged-in'', 3)]"
    by simp
  have 3: "list_all (resolves example_window) [(''main_widget::main-widget-ready'', 1 :: nat)]"
    by (simp add: app_eval)
  have 4: "str_split ''::'' ''main_widget.notifications.error_dialogs::response''
             = [''main_widget.notifications.error_dialogs'', ''response'']"
    by (simp add: str_split_def)
  have 5: "follow_path example_window (str_split ''.'' ''main_widget.notifications.error_dialogs'')
             = Inr (PyObj False [] [])"
    by (simp add: str_split_def getattr_def example_window_def)
  have 6: "\<not> is_gobject (PyObj False [] [])" by simp
  from not_gobject_assertion_error[OF 1 2 3 4 5 6]
  show ?thesis by (simp add: connection_of_def str_split_def)
qed

section \<open>Verification of general_settings.py\<close>

lemmas settings_defs = get_app_configuration_def set_app_configuration_def
  set_connect_at_app_startup_def set_tray_pinned_servers_def

text \<open>
  Claim C9. Each setter reads the configuration from the controller, changes one field
  and assigns the whole record back, once: the record written is the record read with
  \<open>connect_at_app_startup\<close> (respectively \<open>tray_pinned_servers\<close>) replaced, and the other
  field and every further field of the record are those of the record read.
\<close>

theorem settings_setters_frame:
  "app_configuration (set_connect_at_app_startup newvalue c)
     = (get_app_configuration c)\<lparr>connect_at_app_startup := newvalue\<rparr> \<and>
   writes (set_connect_at_app_startup newvalue c)
     = writes c @ [(get_app_configuration c)\<lparr>connect_at_app_startup := newvalue\<rparr>] \<and>
   connect_at_app_startup (app_configuration (set_connect_at_app_startup newvalue c)) = newvalue \<and>
   tray_pinned_servers (app_configuration (set_connect_at_app_startup newvalue c))
     = tray_pinned_servers (app_configuration c) \<and>
   AppConfiguration.more (app_configuration (set_connect_at_app_startup newvalue c))
     = AppConfiguration.more (app_configuration c) \<and>
   app_configuration (set_tray_pinned_servers upper text c)
     = (get_app_configuration c)\<lparr>tray_pinned_servers := server_list_of upper text\<rparr> \<and>
   writes (set_tray_pinned_servers upper text c)
     = writes c @ [(get_app_configuration c)\<lparr>tray_pinned_servers := server_list_of upper text\<rparr>] \<and>
   tray_pinned_servers (app_configuration (set_tray_pinned_servers upper text c)) = server_list_of upper text \<and>
   connect_at_app_startup (app_configuration (set_tray_pinned_servers upper text c))
     = connect_at_app_startup (app_configuration c) \<and>
   AppConfiguration.more (app_configuration (set_tray_pinned_servers upper text c))
     = AppConfiguration.more (app_configuration c)"
  by (simp add: settings_defs Let_def)

text \<open>The list the tray setter stores for a text typed by the user.\<close>

lemma set_tray_pinned_servers_example:
  "app_configuration
     (set_tray_pinned_servers ascii_upper '' nl#42, jp,, US ,it#01 ''
        \<lparr>app_configuration = \<lparr>connect_at_app_startup = Some ''FASTEST'', tray_pinned_servers = []\<rparr>,
         writes = []\<rparr>)
   = \<lparr>connect_at_app_startup = Some ''FASTEST'',
      tray_pinned_servers = [''NL#42'', ''JP'', ''US'', ''IT#01'']\<rparr>"
  by (simp add: settings_defs Let_def server_list_of_def str_split_def ascii_upper_def strip_def
      whitespace_def lowers_def uppers_def)

end
